theory Spec2Isabelle
  imports Main "HOL-Library.Word"
begin

section \<open>SeekingHTTP: an io.ReadSeeker and io.ReaderAt over HTTP range requests\<close>

text \<open>
  A shallow embedding of \<^verbatim>\<open>seekinghttp.go\<close>. Values of Go type \<^verbatim>\<open>int64\<close>
  are 64-bit words read as two's complement: \<open>+\<close> and \<open>-\<close> wrap, comparisons are the
  signed ones (\<open><s\<close>, \<open>\<le>s\<close>). Values of Go type \<^verbatim>\<open>int\<close> (byte counts, slice
  lengths, the whence argument) are HOL integers: \<^verbatim>\<open>int\<close> is taken to be 64 bits wide
  and a slice is shorter than \<open>2 ^ 63\<close>, so that \<^verbatim>\<open>int(x)\<close> is \<open>sint x\<close> and
  \<^verbatim>\<open>int64(len(b))\<close> is \<open>of_nat (length b)\<close>. The logger only prints and is left out.
  Every function takes the state of the struct and returns it with its result; a result
  is the pair of the value and the error, \<open>None\<close> for nil.
\<close>

subsection \<open>Data\<close>

type_synonym int64 = "64 word"
type_synonym byte = "8 word"

text \<open>
  The errors a call can return. \<open>Foreign\<close> stands for an error made by a collaborator
  (url.Parse, the transport, the response body); \<open>RuntimePanic\<close> is not an error value
  of the program but the run-time panic of a slice expression whose bounds are out of range.
\<close>

datatype error =
    io_EOF
  | os_ErrInvalid
  | ErrContentLength int64 int64
  | ErrNoContentLength
  | ErrNegativeContentLength
  | Foreign nat
  | RuntimePanic

record request =
  Method :: string
  ReqURL :: string
  Header :: "(string \<times> string) list"

text \<open>
  A response body is an io.ReadCloser: reading it to its end gives \<open>Data\<close> and then either
  end of file (\<open>ReadErr = None\<close>) or an error; closing it gives \<open>CloseErr\<close>.
\<close>

record body =
  Data :: "byte list"
  ReadErr :: "error option"
  CloseErr :: "error option"

record response =
  StatusCode :: int
  ContentLength :: int64
  Body :: body

text \<open>
  The collaborators: \<open>url_Parse\<close> is net/url's parser (a parsed URL is represented by
  the string its String method gives), \<open>Do\<close> is the method of the HttpClient interface,
  acting on the client's own state \<open>'c\<close>. \<open>Buffer_spare\<close> stands for the growth of a
  bytes.Buffer: from the array that was behind the buffer (empty if there was no buffer) and
  the bytes that Reset and ReadFrom leave in it, it gives the bytes that are in the array
  after those, up to its capacity.
\<close>

record 'c env =
  url_Parse :: "string \<Rightarrow> error + string"
  Do :: "'c \<Rightarrow> request \<Rightarrow> (error + response) \<times> 'c"
  Buffer_spare :: "byte list \<Rightarrow> byte list \<Rightarrow> byte list"

text \<open>
  The struct. \<open>Client\<close> holds the state of the injected client. The buffer \<open>last\<close> is
  \<open>lastBuf\<close>, its bytes, and \<open>lastSpare\<close>, what is in its array after them. \<open>wire\<close> is a
  ghost field: the list of the exchanges with the transport so far, one entry for each call
  of \<open>Do\<close>, in order.
\<close>

record 'c SeekingHTTP =
  URL :: string
  MinFetch :: int64
  KnownSize :: "int64 option"
  Client :: 'c
  url :: "string option"
  offset :: int64
  lastBuf :: "byte list option"
  lastSpare :: "byte list"
  lastOffset :: int64
  wire :: "(request \<times> (error + response)) list"

type_synonym 'c outcome = "(int \<times> error option \<times> byte list) \<times> 'c SeekingHTTP"

subsection \<open>Helpers of the Go run time and library\<close>

definition min64 :: "int64 \<Rightarrow> int64 \<Rightarrow> int64" where
  "min64 a b = (if b <s a then b else a)"

definition max64 :: "int64 \<Rightarrow> int64 \<Rightarrow> int64" where
  "max64 a b = (if a <s b then b else a)"

text \<open>\<^verbatim>\<open>copy(dst, src)\<close>: the first \<open>min (len dst) (len src)\<close> bytes of \<open>dst\<close> are overwritten.\<close>

definition copy_bytes :: "byte list \<Rightarrow> byte list \<Rightarrow> byte list" where
  "copy_bytes dst src = take (length dst) src @ drop (length src) dst"

text \<open>
  \<^verbatim>\<open>b[lo:hi]\<close> on a slice with the bytes \<open>b\<close> and, after them and up to its capacity,
  the bytes \<open>spare\<close>: the bounds are checked against the capacity, and a bound out of range
  panics (\<open>None\<close>).
\<close>

definition slice :: "byte list \<Rightarrow> byte list \<Rightarrow> int64 \<Rightarrow> int64 \<Rightarrow> byte list option" where
  "slice b spare lo hi =
     (if 0 \<le> sint lo \<and> sint lo \<le> sint hi \<and> sint hi \<le> int (length b + length spare)
      then Some (take (nat (sint hi) - nat (sint lo)) (drop (nat (sint lo)) (b @ spare)))
      else None)"

fun digits10 :: "nat \<Rightarrow> string" where
  "digits10 n =
     (if n < 10 then [''0123456789'' ! n]
      else digits10 (n div 10) @ [''0123456789'' ! (n mod 10)])"

declare digits10.simps [simp del]

text \<open>\<^verbatim>\<open>strconv.FormatInt(v, 10)\<close>: the decimal digits of the signed value.\<close>

definition itoa10 :: "int \<Rightarrow> string" where
  "itoa10 i = (if i < 0 then CHR ''-'' # digits10 (nat (- i)) else digits10 (nat i))"

definition FormatInt10 :: "int64 \<Rightarrow> string" where
  "FormatInt10 v = itoa10 (sint v)"

text \<open>\<^verbatim>\<open>http.NewRequest(method, url, nil)\<close>: parses the URL; the header is empty.\<close>

definition http_NewRequest :: "'c env \<Rightarrow> string \<Rightarrow> string \<Rightarrow> error + request" where
  "http_NewRequest env m u =
     (case url_Parse env u of
        Inl e \<Rightarrow> Inl e
      | Inr u' \<Rightarrow> Inr \<lparr>Method = m, ReqURL = u', Header = []\<rparr>)"

subsection \<open>The program\<close>

definition newReq :: "'c env \<Rightarrow> 'c SeekingHTTP \<Rightarrow> (error + request) \<times> 'c SeekingHTTP" where
  "newReq env s =
     (case url s of
        None \<Rightarrow>
          (case url_Parse env (URL s) of
             Inl e \<Rightarrow> (Inl e, s)
           | Inr u \<Rightarrow> (http_NewRequest env ''GET'' u, s\<lparr>url := Some u\<rparr>))
      | Some u \<Rightarrow> (http_NewRequest env ''GET'' u, s))"

definition fmtRange :: "int64 \<Rightarrow> int64 \<Rightarrow> string" where
  "fmtRange from l =
     (let to = (if l = 0 then from else from + (l - 1))
      in ''bytes='' @ FormatInt10 from @ ''-'' @ FormatInt10 to)"

text \<open>Lines 114-117: the length is at least MinFetch if that is set.\<close>

definition amplify :: "'c SeekingHTTP \<Rightarrow> int64 \<Rightarrow> int64" where
  "amplify s len = (if MinFetch s \<noteq> 0 then max64 len (MinFetch s) else len)"

text \<open>Line 121: the length is capped to what the known size leaves after the offset.\<close>

definition clamp :: "'c SeekingHTTP \<Rightarrow> int64 \<Rightarrow> int64 \<Rightarrow> int64" where
  "clamp s off len = (case KnownSize s of None \<Rightarrow> len | Some sz \<Rightarrow> min64 (sz - off) len)"

text \<open>Lines 127-137: the test of the cache window, and the copy out of it.\<close>

definition cache_hit :: "'c SeekingHTTP \<Rightarrow> int64 \<Rightarrow> int64 \<Rightarrow> bool" where
  "cache_hit s off len =
     (case lastBuf s of
        None \<Rightarrow> False
      | Some w \<Rightarrow> lastOffset s \<le>s off \<and> off + len \<le>s lastOffset s + of_nat (length w))"

definition serve_cached ::
  "'c SeekingHTTP \<Rightarrow> byte list \<Rightarrow> byte list \<Rightarrow> int64 \<Rightarrow> int64 \<Rightarrow> 'c outcome" where
  "serve_cached s w buf off len =
     (let end = off + len; start = off - lastOffset s
      in case slice w (lastSpare s) start (end - lastOffset s) of
           None \<Rightarrow> ((0, Some RuntimePanic, buf), s)
         | Some bs \<Rightarrow> ((min (int (length buf)) (sint len), None, copy_bytes buf bs), s))"

text \<open>
  Lines 165-175, the deferred function: the rest of the body is read and the body closed;
  the error of that replaces the returned one only if there was none. \<open>drained\<close> says
  that the body has been read to its end already.
\<close>

definition drain_close :: "body \<Rightarrow> bool \<Rightarrow> error option" where
  "drain_close b drained =
     (case (if drained then None else ReadErr b) of
        Some e \<Rightarrow> Some e
      | None \<Rightarrow> CloseErr b)"

definition deferred :: "error option \<Rightarrow> 'c outcome \<Rightarrow> 'c outcome" where
  "deferred cErr r =
     (case r of ((n, err, buf), s) \<Rightarrow>
        ((n, (if err = None \<and> cErr \<noteq> None then cErr else err), buf), s))"

text \<open>Lines 181-220: what is done with the response.\<close>

definition serve_response ::
  "'c env \<Rightarrow> 'c SeekingHTTP \<Rightarrow> byte list \<Rightarrow> int64 \<Rightarrow> int64 \<Rightarrow> response \<Rightarrow> 'c outcome"
  where
  "serve_response env s buf off len resp =
     (if StatusCode resp = 200 \<or> StatusCode resp = 206 then
        let s1 = s\<lparr>lastOffset := off, lastBuf := Some (Data (Body resp)),
                   lastSpare := Buffer_spare env
                     (case lastBuf s of None \<Rightarrow> [] | Some w \<Rightarrow> w @ lastSpare s)
                     (Data (Body resp))\<rparr>;
            n = (of_nat (length (Data (Body resp))) :: int64)
        in case ReadErr (Body resp) of
             Some e \<Rightarrow> deferred (drain_close (Body resp) False) ((0, Some e, buf), s1)
           | None \<Rightarrow>
               if ContentLength resp = 0 then
                 deferred (drain_close (Body resp) True)
                   ((min (sint (min64 n len)) (int (length buf)), None,
                     copy_bytes buf (Data (Body resp))), s1)
               else if n \<noteq> ContentLength resp then
                 deferred (drain_close (Body resp) True)
                   ((0, Some (ErrContentLength n (ContentLength resp)), buf), s1)
               else
                 let s2 = (if StatusCode resp = 200 \<and> KnownSize s1 = None
                           then s1\<lparr>KnownSize := Some (ContentLength resp)\<rparr> else s1)
                 in deferred (drain_close (Body resp) True)
                      ((min (sint (min64 (ContentLength resp) len)) (int (length buf)), None,
                        copy_bytes buf (Data (Body resp))), s2)
      else deferred (drain_close (Body resp) False) ((0, Some io_EOF, buf), s))"

text \<open>Lines 147-162: the request is made and sent.\<close>

definition fetch :: "'c env \<Rightarrow> 'c SeekingHTTP \<Rightarrow> byte list \<Rightarrow> int64 \<Rightarrow> int64 \<Rightarrow> 'c outcome" where
  "fetch env s buf off len =
     (case newReq env s of
        (Inl e, s1) \<Rightarrow> ((0, Some e, buf), s1)
      | (Inr req0, s1) \<Rightarrow>
          let req = req0\<lparr>Header := Header req0 @ [(''Range'', fmtRange off len)]\<rparr>
          in case Do env (Client s1) req of
               (Inl e, c) \<Rightarrow>
                 ((0, Some e, buf), s1\<lparr>Client := c, wire := wire s1 @ [(req, Inl e)]\<rparr>)
             | (Inr resp, c) \<Rightarrow>
                 serve_response env (s1\<lparr>Client := c, wire := wire s1 @ [(req, Inr resp)]\<rparr>)
                   buf off len resp)"

definition ReadAtWithLength ::
  "'c env \<Rightarrow> 'c SeekingHTTP \<Rightarrow> byte list \<Rightarrow> int64 \<Rightarrow> int64 \<Rightarrow> 'c outcome" where
  "ReadAtWithLength env s buf off length0 =
     (if off <s 0 then ((0, Some io_EOF, buf), s)
      else
        let len = clamp s off (amplify s length0)
        in if KnownSize s \<noteq> None \<and> len <s 0 then ((0, Some io_EOF, buf), s)
           else case lastBuf s of
                  None \<Rightarrow> fetch env s buf off len
                | Some w \<Rightarrow>
                    if cache_hit s off len then serve_cached s w buf off len
                    else fetch env s buf off len)"

definition ReadAt :: "'c env \<Rightarrow> 'c SeekingHTTP \<Rightarrow> byte list \<Rightarrow> int64 \<Rightarrow> 'c outcome" where
  "ReadAt env s buf off =
     (case ReadAtWithLength env s buf off (of_nat (length buf)) of
        ((n, err, buf'), s') \<Rightarrow>
          let n' = min (int (length buf)) n
          in ((n', (if n' \<noteq> int (length buf) \<and> err = None then Some io_EOF else err), buf'), s'))"

definition Read :: "'c env \<Rightarrow> 'c SeekingHTTP \<Rightarrow> byte list \<Rightarrow> 'c outcome" where
  "Read env s buf =
     (case ReadAt env s buf (offset s) of
        ((n, err, buf'), s') \<Rightarrow>
          ((n, err, buf'), (if err = None then s'\<lparr>offset := offset s' + of_int n\<rparr> else s')))"

definition Size :: "'c env \<Rightarrow> 'c SeekingHTTP \<Rightarrow> (int64 \<times> error option) \<times> 'c SeekingHTTP" where
  "Size env s =
     (case KnownSize s of
        Some sz \<Rightarrow> ((sz, None), s)
      | None \<Rightarrow>
          (case newReq env s of
             (Inl e, s1) \<Rightarrow> ((0, Some e), s1)
           | (Inr req0, s1) \<Rightarrow>
               let req = req0\<lparr>Method := ''HEAD''\<rparr>
               in case Do env (Client s1) req of
                    (Inl e, c) \<Rightarrow>
                      ((0, Some e), s1\<lparr>Client := c, wire := wire s1 @ [(req, Inl e)]\<rparr>)
                  | (Inr resp, c) \<Rightarrow>
                      let s2 = s1\<lparr>Client := c, wire := wire s1 @ [(req, Inr resp)]\<rparr>
                      in if ContentLength resp <s 0 then ((0, Some ErrNoContentLength), s2)
                         else
                           let len = ContentLength resp
                           in if len <s 0 then ((0, Some ErrNegativeContentLength), s2)
                              else ((ContentLength resp, None), s2\<lparr>KnownSize := Some len\<rparr>)))"

text \<open>Lines 259-262: the cursor is assigned first and tested afterwards.\<close>

definition seek_end ::
  "'c SeekingHTTP \<Rightarrow> int64 \<Rightarrow> int64 \<Rightarrow> (int64 \<times> error option) \<times> 'c SeekingHTTP" where
  "seek_end s len off =
     (let s' = s\<lparr>offset := len + off\<rparr>
      in if len <s offset s' \<or> offset s' <s 0 then ((0, Some io_EOF), s')
         else ((offset s', None), s'))"

definition Seek ::
  "'c env \<Rightarrow> 'c SeekingHTTP \<Rightarrow> int64 \<Rightarrow> int \<Rightarrow> (int64 \<times> error option) \<times> 'c SeekingHTTP" where
  "Seek env s off whence =
     (if whence = 0 then ((off, None), s\<lparr>offset := off\<rparr>)
      else if whence = 1 then ((offset s + off, None), s\<lparr>offset := offset s + off\<rparr>)
      else if whence = 2 then
        (case KnownSize s of
           Some len \<Rightarrow> seek_end s len off
         | None \<Rightarrow>
             (case Size env s of
                ((len, Some e), s1) \<Rightarrow> ((0, Some e), s1)
              | ((len, None), s1) \<Rightarrow> seek_end s1 len off))
      else ((0, Some os_ErrInvalid), s))"

subsection \<open>Sequences of calls\<close>

datatype call =
    CallRead "byte list"
  | CallReadAt "byte list" int64
  | CallReadAtWithLength "byte list" int64 int64
  | CallSeek int64 int
  | CallSize

fun step :: "'c env \<Rightarrow> 'c SeekingHTTP \<Rightarrow> call \<Rightarrow> 'c SeekingHTTP" where
  "step env s (CallRead buf) = snd (Read env s buf)"
| "step env s (CallReadAt buf off) = snd (ReadAt env s buf off)"
| "step env s (CallReadAtWithLength buf off len) = snd (ReadAtWithLength env s buf off len)"
| "step env s (CallSeek off whence) = snd (Seek env s off whence)"
| "step env s CallSize = snd (Size env s)"

definition run :: "'c env \<Rightarrow> 'c SeekingHTTP \<Rightarrow> call list \<Rightarrow> 'c SeekingHTTP" where
  "run env s cs = foldl (step env) s cs"

subsection \<open>A scripted transport\<close>

text \<open>
  A test double for the transport: the client's state is the list of the results it still
  has to give, one for each call of \<open>Do\<close>, whatever the request; every URL parses. The
  array of the buffer is used again as it is: what the new bytes do not cover stays.
\<close>

definition scripted :: "(error + response) list env" where
  "scripted =
     \<lparr>url_Parse = Inr,
      Do = (\<lambda>c req. case c of [] \<Rightarrow> (Inl (Foreign 0), []) | r # rs \<Rightarrow> (r, rs)),
      Buffer_spare = (\<lambda>old new. drop (length new) old)\<rparr>"

definition reply :: "int \<Rightarrow> int64 \<Rightarrow> byte list \<Rightarrow> error + response" where
  "reply st cl d =
     Inr \<lparr>StatusCode = st, ContentLength = cl,
          Body = \<lparr>Data = d, ReadErr = None, CloseErr = None\<rparr>\<rparr>"

text \<open>
  A second test double: it answers every request with the same result, and its state is
  the list of the requests that \<open>Do\<close> was given, in order.
\<close>

definition recorder :: "error + response \<Rightarrow> request list env" where
  "recorder r =
     \<lparr>url_Parse = Inr,
      Do = (\<lambda>c req. (r, c @ [req])),
      Buffer_spare = (\<lambda>old new. drop (length new) old)\<rparr>"

text \<open>The struct as NewWithClient makes it, with the public fields MinFetch and KnownSize set.\<close>

definition fresh :: "int64 \<Rightarrow> int64 option \<Rightarrow> 'c \<Rightarrow> 'c SeekingHTTP" where
  "fresh m k c =
     \<lparr>URL = ''http://h/f'', MinFetch = m, KnownSize = k, Client = c, url = None,
      offset = 0, lastBuf = None, lastSpare = [], lastOffset = 0, wire = []\<rparr>"

subsection \<open>Well-formed responses\<close>


section \<open>Lemmas\<close>

subsection \<open>Signed arithmetic without wrap-around\<close>

lemma sint64_bounds: "- (2 ^ 63) \<le> sint (x :: int64)" "sint (x :: int64) < 2 ^ 63"
  using sint_ge [of x] sint_lt [of x] by simp_all

lemma sint64_add:
  "- (2 ^ 63) \<le> sint a + sint b \<Longrightarrow> sint a + sint b < 2 ^ 63 \<Longrightarrow>
   sint (a + b :: int64) = sint a + sint b"
  by (simp add: sint_word_ariths signed_take_bit_int_eq_self)

lemma sint64_diff:
  "- (2 ^ 63) \<le> sint a - sint b \<Longrightarrow> sint a - sint b < 2 ^ 63 \<Longrightarrow>
   sint (a - b :: int64) = sint a - sint b"
  by (simp add: sint_word_ariths signed_take_bit_int_eq_self)

lemma sint64_of_nat: "n < 2 ^ 63 \<Longrightarrow> sint (of_nat n :: int64) = int n"
  by (simp add: signed_of_nat signed_take_bit_int_eq_self)

lemma sint_max64: "sint (max64 a b) = max (sint a) (sint b)"
  by (simp add: max64_def word_sless_alt max_def)

lemma sint_min64: "sint (min64 a b) = min (sint a) (sint b)"
  by (simp add: min64_def word_sless_alt min_def)

lemma sint64_last_byte:
  "- (2 ^ 63) \<le> sint a + sint b - 1 \<Longrightarrow> sint a + sint b - 1 < 2 ^ 63 \<Longrightarrow>
   sint (a + (b - 1) :: int64) = sint a + sint b - 1"
proof -
  assume r: "- (2 ^ 63) \<le> sint a + sint b - 1" "sint a + sint b - 1 < 2 ^ 63"
  have "a + (b - 1) = word_of_int (sint a + sint b - 1)"
    by simp
  then have "sint (a + (b - 1)) = signed_take_bit 63 (sint a + sint b - 1)"
    by (simp only: sint_sbintrunc') simp
  with r show ?thesis by (simp add: signed_take_bit_int_eq_self)
qed

lemma min_le_max0: "min (min a l) b \<le> max 0 (l :: int)" "min b l \<le> max 0 l"
  by auto

lemma sint_amplify:
  "sint (amplify s len) = (if MinFetch s = 0 then sint len else max (sint len) (sint (MinFetch s)))"
  by (simp add: amplify_def sint_max64)

lemma sint_clamp_known:
  assumes "KnownSize s = Some S" and "0 \<le>s S" and "0 \<le>s off"
  shows "sint (clamp s off len) = min (sint S - sint off) (sint len)"
proof -
  from assms(2,3) sint64_bounds [of S] sint64_bounds [of off]
  have "sint (S - off) = sint S - sint off"
    by (intro sint64_diff) (simp_all add: word_sle_eq)
  with assms(1) show ?thesis by (simp add: clamp_def sint_min64)
qed

lemma sint_clamp:
  "sint (clamp s off x) =
     (case KnownSize s of None \<Rightarrow> sint x | Some S \<Rightarrow> min (sint (S - off)) (sint x))"
  by (simp add: clamp_def sint_min64 split: option.splits)


subsection \<open>The range header\<close>

lemma fmtRange_zero: "fmtRange off 0 = ''bytes='' @ itoa10 (sint off) @ ''-'' @ itoa10 (sint off)"
  by (simp add: fmtRange_def FormatInt10_def)

lemma fmtRange_span:
  assumes "E \<noteq> 0" and "- (2 ^ 63) \<le> sint off + sint E - 1" and "sint off + sint E - 1 < 2 ^ 63"
  shows "fmtRange off E = ''bytes='' @ itoa10 (sint off) @ ''-'' @ itoa10 (sint off + sint E - 1)"
  using assms by (simp add: fmtRange_def FormatInt10_def sint64_last_byte)

lemma fmtRange_wraps:
  "E \<noteq> 0 \<Longrightarrow>
   fmtRange off E = ''bytes='' @ itoa10 (sint off) @ ''-'' @ itoa10 (sint (off + (E - 1)))"
  by (simp add: fmtRange_def FormatInt10_def)

subsection \<open>What each function leaves alone\<close>

lemma newReq_fields:
  "newReq env s = (r, s1) \<Longrightarrow>
   KnownSize s1 = KnownSize s \<and> wire s1 = wire s \<and> lastBuf s1 = lastBuf s \<and>
   lastOffset s1 = lastOffset s \<and> offset s1 = offset s \<and> Client s1 = Client s \<and>
   MinFetch s1 = MinFetch s"
  by (auto simp: newReq_def split: option.splits sum.splits)

lemma newReq_request:
  "newReq env s = (Inr req, s1) \<Longrightarrow> Method req = ''GET'' \<and> Header req = []"
  by (auto simp: newReq_def http_NewRequest_def split: option.splits sum.splits)

lemma deferred_snd [simp]: "snd (deferred c r) = snd r"
  by (simp add: deferred_def split: prod.splits)

lemma deferred_count [simp]: "fst (fst (deferred c r)) = fst (fst r)"
  by (simp add: deferred_def split: prod.splits)

lemma deferred_buf [simp]: "snd (snd (fst (deferred c r))) = snd (snd (fst r))"
  by (simp add: deferred_def split: prod.splits)

lemma deferred_err_Some [simp]: "deferred c ((n, Some e, b), s) = ((n, Some e, b), s)"
  by (simp add: deferred_def)

lemma serve_response_KnownSize:
  "KnownSize s = Some S \<Longrightarrow> KnownSize (snd (serve_response env s buf off len resp)) = Some S"
  by (simp add: serve_response_def Let_def split: option.splits)

lemma serve_response_frame:
  "wire (snd (serve_response env s buf off len resp)) = wire s \<and>
   offset (snd (serve_response env s buf off len resp)) = offset s \<and>
   Client (snd (serve_response env s buf off len resp)) = Client s \<and>
   MinFetch (snd (serve_response env s buf off len resp)) = MinFetch s"
  by (simp add: serve_response_def Let_def split: option.splits)

lemma fetch_KnownSize:
  "KnownSize s = Some S \<Longrightarrow> KnownSize (snd (fetch env s buf off len)) = Some S"
  by (auto simp: fetch_def Let_def serve_response_KnownSize dest!: newReq_fields
      split: prod.splits sum.splits)


lemma serve_cached_snd [simp]: "snd (serve_cached s w buf off len) = s"
  by (simp add: serve_cached_def Let_def split: option.splits)

lemma ReadAtWithLength_KnownSize:
  "KnownSize s = Some S \<Longrightarrow> KnownSize (snd (ReadAtWithLength env s buf off len)) = Some S"
  by (simp add: ReadAtWithLength_def Let_def fetch_KnownSize split: option.splits)


lemma ReadAt_snd: "snd (ReadAt env s buf off) = snd (ReadAtWithLength env s buf off (of_nat (length buf)))"
  by (simp add: ReadAt_def Let_def split: prod.splits)

lemma Read_KnownSize:
  "KnownSize s = Some S \<Longrightarrow> KnownSize (snd (Read env s buf)) = Some S"
  using ReadAtWithLength_KnownSize [of s S env buf "offset s" "of_nat (length buf)"]
  by (auto simp: Read_def ReadAt_def Let_def split: prod.splits)

lemma Size_known: "KnownSize s = Some S \<Longrightarrow> Size env s = ((S, None), s)"
  by (simp add: Size_def)

lemma Seek_KnownSize:
  "KnownSize s = Some S \<Longrightarrow> KnownSize (snd (Seek env s off whence)) = Some S"
  by (simp add: Seek_def seek_end_def Let_def)

lemma step_KnownSize: "KnownSize s = Some S \<Longrightarrow> KnownSize (step env s c) = Some S"
  by (cases c)
    (simp_all add: Read_KnownSize ReadAt_snd ReadAtWithLength_KnownSize Seek_KnownSize Size_known)

lemma run_KnownSize: "KnownSize s = Some S \<Longrightarrow> KnownSize (run env s cs) = Some S"
  unfolding run_def by (induction cs arbitrary: s) (simp_all add: step_KnownSize)

lemma Size_sets_KnownSize:
  "Size env s = ((S, None), s1) \<Longrightarrow> KnownSize s1 = Some S"
  by (auto simp: Size_def Let_def split: option.splits prod.splits sum.splits if_splits)

subsection \<open>The exchange with the transport\<close>




lemma serve_response_count:
  "fst (fst (serve_response env s buf off len resp)) \<le> max 0 (sint len)"
  by (simp add: serve_response_def Let_def sint_min64 min_le_max0 split: option.splits)

lemma fetch_cases:
  obtains (parse) e s1 where
      "fetch env s buf off len = ((0, Some e, buf), s1)" "wire s1 = wire s"
      "offset s1 = offset s"
    | (transport) e req s1 where
      "fetch env s buf off len = ((0, Some e, buf), s1)" "wire s1 = wire s @ [(req, Inl e)]"
      "offset s1 = offset s"
    | (response) req resp s2 where
      "fetch env s buf off len = serve_response env s2 buf off len resp"
      "wire s2 = wire s @ [(req, Inr resp)]" "offset s2 = offset s"
proof -
  obtain x s1 where n: "newReq env s = (x, s1)" by (metis prod.collapse)
  note nr = newReq_fields [OF n]
  show thesis
  proof (cases x)
    case (Inl e)
    with n nr parse show thesis by (simp add: fetch_def)
  next
    case (Inr req0)
    let ?req = "req0\<lparr>Header := Header req0 @ [(''Range'', fmtRange off len)]\<rparr>"
    obtain y c where d: "Do env (Client s1) ?req = (y, c)" by (metis prod.collapse)
    show thesis
    proof (cases y)
      case (Inl e)
      with n Inr d nr transport [of e "s1\<lparr>Client := c, wire := wire s1 @ [(?req, Inl e)]\<rparr>" ?req]
      show thesis by (simp add: fetch_def Let_def)
    next
      case r: (Inr resp)
      with n Inr d nr
        response [of "s1\<lparr>Client := c, wire := wire s1 @ [(?req, Inr resp)]\<rparr>" resp ?req]
      show thesis by (simp add: fetch_def Let_def)
    qed
  qed
qed

lemma fetch_exchange:
  assumes "wire (snd (fetch env s buf off len)) = wire s @ [(req, Inr resp)]"
  shows "\<exists>s2. fetch env s buf off len = serve_response env s2 buf off len resp"
proof (cases "newReq env s")
  case (Pair r s1)
  note nr = newReq_fields [OF Pair]
  show ?thesis
  proof (cases r)
    case (Inl e)
    with Pair assms nr show ?thesis by (simp add: fetch_def)
  next
    case (Inr req0)
    show ?thesis
    proof (cases "Do env (Client s1) (req0\<lparr>Header := Header req0 @ [(''Range'', fmtRange off len)]\<rparr>)")
      case (Pair x c)
      with \<open>newReq env s = (r, s1)\<close> Inr assms nr show ?thesis
        by (cases x) (auto simp: fetch_def Let_def serve_response_frame)
    qed
  qed
qed

lemma fetch_dispatches:
  assumes "newReq env s = (Inr req0, s1)"
  shows "\<exists>r. wire (snd (fetch env s buf off len)) =
           wire s @ [(\<lparr>Method = ''GET'', ReqURL = ReqURL req0,
                        Header = [(''Range'', fmtRange off len)]\<rparr>, r)]"
proof -
  let ?req = "req0\<lparr>Header := Header req0 @ [(''Range'', fmtRange off len)]\<rparr>"
  from newReq_request [OF assms]
  have rq: "?req = \<lparr>Method = ''GET'', ReqURL = ReqURL req0, Header = [(''Range'', fmtRange off len)]\<rparr>"
    by simp
  note nr = newReq_fields [OF assms]
  obtain x c where d: "Do env (Client s1) ?req = (x, c)" by (metis prod.collapse)
  show ?thesis
  proof (cases x)
    case (Inl e)
    with assms d nr have "wire (snd (fetch env s buf off len)) = wire s @ [(?req, Inl e)]"
      by (simp add: fetch_def Let_def)
    with rq show ?thesis by auto
  next
    case (Inr resp)
    with assms d nr have "wire (snd (fetch env s buf off len)) = wire s @ [(?req, Inr resp)]"
      by (simp add: fetch_def Let_def serve_response_frame)
    with rq show ?thesis by auto
  qed
qed

text \<open>A fetch whose request can be made gives it to \<open>Do\<close>, with the header Range.\<close>

lemma fetch_calls_Do:
  assumes "newReq env s = (Inr req0, s1)"
    and "req = \<lparr>Method = ''GET'', ReqURL = ReqURL req0,
                 Header = [(''Range'', fmtRange off len)]\<rparr>"
  shows "wire (snd (fetch env s buf off len)) = wire s @ [(req, fst (Do env (Client s) req))] \<and>
         Client (snd (fetch env s buf off len)) = snd (Do env (Client s) req)"
proof -
  let ?req = "req0\<lparr>Header := Header req0 @ [(''Range'', fmtRange off len)]\<rparr>"
  from newReq_request [OF assms(1)] assms(2) have rq: "?req = req" by simp
  note nr = newReq_fields [OF assms(1)]
  obtain x c where d: "Do env (Client s) req = (x, c)" by (metis prod.collapse)
  with rq nr have d': "Do env (Client s1) ?req = (x, c)" by simp
  show ?thesis
  proof (cases x)
    case (Inl e)
    with assms(1) d d' nr rq show ?thesis
      by (simp add: fetch_def Let_def)
  next
    case (Inr resp)
    with assms(1) d d' nr rq show ?thesis
      by (simp add: fetch_def Let_def serve_response_frame)
  qed
qed

lemma fetch_wire:
  "wire (snd (fetch env s buf off len)) = wire s \<or>
   (\<exists>req r. wire (snd (fetch env s buf off len)) = wire s @ [(req, r)] \<and>
      Method req = ''GET'' \<and> Header req = [(''Range'', fmtRange off len)])"
proof -
  obtain x s1 where n: "newReq env s = (x, s1)" by (metis prod.collapse)
  show ?thesis
  proof (cases x)
    case (Inl e)
    with n newReq_fields [OF n] show ?thesis by (simp add: fetch_def)
  next
    case (Inr req0)
    with n fetch_dispatches [of env s req0 s1 buf off len] show ?thesis by auto
  qed
qed

lemma fetch_count: "fst (fst (fetch env s buf off len)) \<le> max 0 (sint len)"
  by (simp add: fetch_def Let_def serve_response_count split: prod.splits sum.splits)


subsection \<open>The three ways through a positional read\<close>

lemma ReadAtWithLength_dispatch:
  assumes "wire (snd (ReadAtWithLength env s buf off len)) \<noteq> wire s"
  shows "ReadAtWithLength env s buf off len = fetch env s buf off (clamp s off (amplify s len))"
  using assms by (auto simp: ReadAtWithLength_def Let_def split: if_splits option.splits)

lemma ReadAtWithLength_miss:
  assumes "0 \<le>s off" and "L = clamp s off (amplify s len)"
    and "KnownSize s = None \<or> 0 \<le>s L" and "\<not> cache_hit s off L"
  shows "ReadAtWithLength env s buf off len = fetch env s buf off L"
  using assms
  by (auto simp: ReadAtWithLength_def Let_def word_sle_eq word_sless_alt split: option.splits)

lemma ReadAtWithLength_hit:
  assumes "0 \<le>s off" and "L = clamp s off (amplify s len)"
    and "KnownSize s = None \<or> 0 \<le>s L" and "cache_hit s off L" and "lastBuf s = Some w"
  shows "ReadAtWithLength env s buf off len = serve_cached s w buf off L"
  using assms
  by (auto simp: ReadAtWithLength_def Let_def word_sle_eq word_sless_alt split: option.splits)

lemma serve_cached_count: "fst (fst (serve_cached s w buf off len)) \<le> max 0 (sint len)"
  by (simp add: serve_cached_def Let_def min_le_max0 split: option.splits)

lemma ReadAtWithLength_count:
  "fst (fst (ReadAtWithLength env s buf off len)) \<le> max 0 (sint (clamp s off (amplify s len)))"
  by (simp add: ReadAtWithLength_def Let_def fetch_count serve_cached_count split: option.splits)

lemma ReadAtWithLength_wire:
  "wire (snd (ReadAtWithLength env s buf off len)) = wire s \<or>
   (\<exists>req r. wire (snd (ReadAtWithLength env s buf off len)) = wire s @ [(req, r)] \<and>
      Method req = ''GET'' \<and>
      Header req = [(''Range'', fmtRange off (clamp s off (amplify s len)))])"
  using fetch_wire [of env s buf off "clamp s off (amplify s len)"]
  by (simp add: ReadAtWithLength_def Let_def split: option.splits)

text \<open>An error of the transport is returned as it is.\<close>

lemma ReadAtWithLength_transport_error:
  assumes "ReadAtWithLength env s buf off len = ((n, err, buf'), s')"
    and "wire s' = wire s @ [(req, Inl e)]"
  shows "n = 0 \<and> err = Some e \<and> buf' = buf"
proof -
  from assms have w: "wire (snd (ReadAtWithLength env s buf off len)) = wire s @ [(req, Inl e)]"
    by simp
  then have "wire (snd (ReadAtWithLength env s buf off len)) \<noteq> wire s" by simp
  from ReadAtWithLength_dispatch [OF this]
  have eq: "ReadAtWithLength env s buf off len = fetch env s buf off (clamp s off (amplify s len))" .
  show ?thesis
  proof (cases rule: fetch_cases [of env s buf off "clamp s off (amplify s len)"])
    case (parse e' s1)
    with eq w show ?thesis by simp
  next
    case (transport e' req' s1)
    with eq w assms(1) show ?thesis by simp
  next
    case (response req' resp s2)
    with eq w show ?thesis by (simp add: serve_response_frame)
  qed
qed

lemma Read_transport_error:
  assumes "Read env s buf = ((n, err, buf'), s')"
    and "wire s' = wire s @ [(req, Inl e)]"
  shows "n = 0 \<and> err = Some e \<and> buf' = buf"
proof -
  obtain m x b t where
    R: "ReadAtWithLength env s buf (offset s) (of_nat (length buf)) = ((m, x, b), t)"
    by (metis prod.collapse)
  with assms(1) have "wire s' = wire t"
    by (auto simp: Read_def ReadAt_def Let_def split: if_splits)
  with assms(2) have "wire t = wire s @ [(req, Inl e)]" by simp
  from ReadAtWithLength_transport_error [OF R this]
  have "m = 0" "x = Some e" "b = buf" by simp_all
  with R assms(1) show ?thesis
    by (auto simp: Read_def ReadAt_def Let_def split: if_splits)
qed

text \<open>
  A positional read either leaves the client and the record of the exchanges as they were,
  or calls \<open>Do\<close> once, with a GET request whose only header is the range of the effective
  length.
\<close>

lemma fetch_exchange_or_not:
  "wire (snd (fetch env s buf off len)) = wire s \<and>
   Client (snd (fetch env s buf off len)) = Client s \<or>
   (\<exists>req. Method req = ''GET'' \<and> Header req = [(''Range'', fmtRange off len)] \<and>
      wire (snd (fetch env s buf off len)) = wire s @ [(req, fst (Do env (Client s) req))] \<and>
      Client (snd (fetch env s buf off len)) = snd (Do env (Client s) req))"
proof -
  obtain x s1 where n: "newReq env s = (x, s1)" by (metis prod.collapse)
  show ?thesis
  proof (cases x)
    case (Inl e)
    with n newReq_fields [OF n] show ?thesis by (simp add: fetch_def)
  next
    case (Inr req0)
    let ?req = "\<lparr>Method = ''GET'', ReqURL = ReqURL req0,
      Header = [(''Range'', fmtRange off len)]\<rparr>"
    from n Inr have "newReq env s = (Inr req0, s1)" by simp
    from fetch_calls_Do [OF this refl, of buf off len]
    have "Method ?req = ''GET'' \<and> Header ?req = [(''Range'', fmtRange off len)] \<and>
      wire (snd (fetch env s buf off len)) = wire s @ [(?req, fst (Do env (Client s) ?req))] \<and>
      Client (snd (fetch env s buf off len)) = snd (Do env (Client s) ?req)"
      by simp
    then show ?thesis by blast
  qed
qed

lemma ReadAtWithLength_exchange_or_not:
  "wire (snd (ReadAtWithLength env s buf off len)) = wire s \<and>
   Client (snd (ReadAtWithLength env s buf off len)) = Client s \<or>
   (\<exists>req. Method req = ''GET'' \<and>
      Header req = [(''Range'', fmtRange off (clamp s off (amplify s len)))] \<and>
      wire (snd (ReadAtWithLength env s buf off len)) =
        wire s @ [(req, fst (Do env (Client s) req))] \<and>
      Client (snd (ReadAtWithLength env s buf off len)) = snd (Do env (Client s) req))"
  using fetch_exchange_or_not [of env s buf off "clamp s off (amplify s len)"]
  by (simp add: ReadAtWithLength_def Let_def split: option.splits)

lemma cache_hit_iff:
  assumes "lastBuf s = Some w" and "0 \<le>s lastOffset s"
    and "sint (lastOffset s) + int (length w) < 2 ^ 63"
    and "0 \<le>s off" and "0 \<le>s L" and "sint off + sint L < 2 ^ 63"
  shows "cache_hit s off L \<longleftrightarrow>
           sint (lastOffset s) \<le> sint off \<and>
           sint off + sint L \<le> sint (lastOffset s) + int (length w)"
proof -
  from assms(2,3) have n: "length w < 2 ^ 63"
    by (simp add: word_sle_eq)
  have 1: "sint (off + L) = sint off + sint L"
    using assms(4,5,6) by (intro sint64_add) (simp_all add: word_sle_eq)
  have 2: "sint (lastOffset s + of_nat (length w)) = sint (lastOffset s) + int (length w)"
    using assms(2,3) n sint64_add [of "lastOffset s" "of_nat (length w)"]
    by (simp add: sint64_of_nat word_sle_eq)
  from assms(1) 1 2 show ?thesis
    by (simp add: cache_hit_def word_sle_eq)
qed

lemma serve_cached_in_window:
  assumes "0 \<le>s lastOffset s" and "0 \<le>s off" and "0 \<le>s L" and "sint off + sint L < 2 ^ 63"
    and "sint (lastOffset s) \<le> sint off"
    and "sint off + sint L \<le> sint (lastOffset s) + int (length w)"
  shows "serve_cached s w buf off L =
           ((min (int (length buf)) (sint L), None,
             copy_bytes buf (take (nat (sint L)) (drop (nat (sint off - sint (lastOffset s))) w))), s)"
proof -
  have 1: "sint (off + L) = sint off + sint L"
    using assms(2,3,4) by (intro sint64_add) (simp_all add: word_sle_eq)
  have 2: "sint (off - lastOffset s) = sint off - sint (lastOffset s)"
    using assms(1,2,5) sint64_bounds [of off] sint64_bounds [of "lastOffset s"]
    by (intro sint64_diff) (simp_all add: word_sle_eq)
  have 3: "sint (off + L - lastOffset s) = sint off + sint L - sint (lastOffset s)"
    using assms(1,2,3,4,5) sint64_bounds [of "lastOffset s"] sint64_diff [of "off + L" "lastOffset s"]
    by (simp add: 1 word_sle_eq)
  have 4: "nat (sint off + sint L - sint (lastOffset s)) - nat (sint off - sint (lastOffset s)) =
           nat (sint L)"
    using assms(3,5) by (simp add: word_sle_eq nat_diff_distrib')
  have 5: "take (nat (sint L)) (drop (nat (sint off - sint (lastOffset s))) (w @ lastSpare s)) =
           take (nat (sint L)) (drop (nat (sint off - sint (lastOffset s))) w)"
    using assms(3,5,6) by (simp add: word_sle_eq)
  from assms(3,5,6)
  have "slice w (lastSpare s) (off - lastOffset s) (off + L - lastOffset s) =
      Some (take (nat (sint L)) (drop (nat (sint off - sint (lastOffset s))) w))"
    by (simp add: slice_def 2 3 4 5 word_sle_eq)
  then show ?thesis by (simp add: serve_cached_def Let_def)
qed

text \<open>
  The content length of a response of status 200 or 206 whose body was read to its end: a
  length that is not 0 and not the number of bytes read is an error; with the length 0 the
  bytes read count, and the only error left is that of closing the body.
\<close>

lemma content_length_checked:
  assumes "ReadAtWithLength env s buf off len = ((n, err, buf'), s')"
    and "wire s' = wire s @ [(req, Inr resp)]"
    and "StatusCode resp = 200 \<or> StatusCode resp = 206"
    and "ReadErr (Body resp) = None"
  shows "(ContentLength resp \<noteq> 0 \<and>
          ContentLength resp \<noteq> of_nat (length (Data (Body resp))) \<longrightarrow>
            n = 0 \<and>
            err = Some (ErrContentLength (of_nat (length (Data (Body resp))))
                     (ContentLength resp))) \<and>
         (ContentLength resp = 0 \<longrightarrow>
            err = CloseErr (Body resp) \<and> buf' = copy_bytes buf (Data (Body resp)))"
proof -
  from assms(1,2)
  have w: "wire (snd (ReadAtWithLength env s buf off len)) = wire s @ [(req, Inr resp)]"
    by simp
  then have "wire (snd (ReadAtWithLength env s buf off len)) \<noteq> wire s" by simp
  from ReadAtWithLength_dispatch [OF this] w
  have "wire (snd (fetch env s buf off (clamp s off (amplify s len)))) = wire s @ [(req, Inr resp)]"
    and eq: "ReadAtWithLength env s buf off len = fetch env s buf off (clamp s off (amplify s len))"
    by simp_all
  from fetch_exchange [OF this(1)] obtain s2 where
    "fetch env s buf off (clamp s off (amplify s len)) =
       serve_response env s2 buf off (clamp s off (amplify s len)) resp" ..
  with eq assms(1)
  have "serve_response env s2 buf off (clamp s off (amplify s len)) resp = ((n, err, buf'), s')"
    by simp
  with assms(3,4) show ?thesis
    by (auto simp: serve_response_def Let_def deferred_def drain_close_def split: if_splits)
qed

lemma Read_content_length_error:
  assumes "Read env s buf = ((n, err, buf'), s')"
    and "wire s' = wire s @ [(req, Inr resp)]"
    and "StatusCode resp = 200 \<or> StatusCode resp = 206"
    and "ReadErr (Body resp) = None"
    and "ContentLength resp \<noteq> 0"
    and "ContentLength resp \<noteq> of_nat (length (Data (Body resp)))"
  shows "n = 0 \<and>
         err = Some (ErrContentLength (of_nat (length (Data (Body resp)))) (ContentLength resp))"
proof -
  obtain m x b t where
    R: "ReadAtWithLength env s buf (offset s) (of_nat (length buf)) = ((m, x, b), t)"
    by (metis prod.collapse)
  with assms(1) have "wire s' = wire t"
    by (auto simp: Read_def ReadAt_def Let_def split: if_splits)
  with assms(2) have "wire t = wire s @ [(req, Inr resp)]" by simp
  from content_length_checked [OF R this assms(3,4)] assms(5,6)
  have "m = 0" "x = Some (ErrContentLength (of_nat (length (Data (Body resp))))
      (ContentLength resp))" by simp_all
  with R assms(1) show ?thesis
    by (auto simp: Read_def ReadAt_def Let_def split: if_splits)
qed

subsection \<open>Reads at a cursor out of range, and at the end\<close>

lemma read_negative_cursor:
  assumes "offset t <s 0"
  shows "Read env t buf = ((0, Some io_EOF, buf), t)"
  using assms by (simp add: Read_def ReadAt_def ReadAtWithLength_def)

lemma read_past_known_size:
  assumes "KnownSize t = Some S" and "0 \<le>s S" and "S <s offset t"
  shows "Read env t buf = ((0, Some io_EOF, buf), t)"
proof -
  from assms(2,3) have nn: "\<not> offset t <s 0"
    by (simp add: word_sle_eq word_sless_alt)
  from assms(2,3) sint64_bounds [of "offset t"] sint64_bounds [of S]
  have "sint (S - offset t) = sint S - sint (offset t)"
    by (intro sint64_diff) (simp_all add: word_sle_eq word_sless_alt)
  with assms(3) have "sint (S - offset t) < 0"
    by (simp add: word_sless_alt)
  then have "clamp t (offset t) (amplify t (of_nat (length buf))) <s 0"
    using assms(1) by (simp add: clamp_def word_sless_alt sint_min64)
  with nn assms(1) show ?thesis
    by (simp add: Read_def ReadAt_def ReadAtWithLength_def Let_def)
qed

lemma seek_end_success:
  assumes "Seek env s off 2 = ((p, None), s')"
  shows "\<exists>S. KnownSize s' = Some S \<and> offset s' = S + off \<and> p = offset s' \<and>
             0 \<le>s offset s' \<and> offset s' \<le>s S"
proof -
  have se: "seek_end t S off = ((p, None), s') \<Longrightarrow> KnownSize t = Some S \<Longrightarrow>
      KnownSize s' = Some S \<and> offset s' = S + off \<and> p = offset s' \<and>
      0 \<le>s offset s' \<and> offset s' \<le>s S" for t S
    by (auto simp: seek_end_def Let_def word_sle_eq word_sless_alt split: if_splits)
  show ?thesis
  proof (cases "KnownSize s")
    case (Some S)
    with assms have "seek_end s S off = ((p, None), s')" by (simp add: Seek_def)
    from se [OF this Some] show ?thesis by blast
  next
    case None
    obtain S e s1 where sz: "Size env s = ((S, e), s1)" by (metis prod.collapse)
    with assms None have e: "e = None" and "seek_end s1 S off = ((p, None), s')"
      by (auto simp: Seek_def split: option.splits)
    from se [OF this(2) Size_sets_KnownSize] sz e show ?thesis by blast
  qed
qed

text \<open>Seek, mode by mode.\<close>

lemma Seek_start: "Seek env s off 0 = ((off, None), s\<lparr>offset := off\<rparr>)"
  by (simp add: Seek_def)

lemma Seek_current:
  "Seek env s off 1 = ((offset s + off, None), s\<lparr>offset := offset s + off\<rparr>)"
  by (simp add: Seek_def)

lemma Seek_end_resolved:
  assumes "Size env s = ((S, None), s1)"
  shows "Seek env s off 2 = seek_end s1 S off"
proof (cases "KnownSize s")
  case None
  with assms show ?thesis by (simp add: Seek_def)
next
  case (Some k)
  with assms show ?thesis by (simp add: Seek_def Size_def)
qed

lemma Seek_end_Size_fails:
  assumes "Size env s = ((S, Some e), s1)"
  shows "Seek env s off 2 = ((0, Some e), s1)"
proof (cases "KnownSize s")
  case None
  with assms show ?thesis by (simp add: Seek_def)
next
  case (Some k)
  with assms show ?thesis by (simp add: Size_def)
qed


subsection \<open>Concrete runs\<close>

text \<open>The definitions a concrete run unfolds.\<close>

lemmas eval_defs = ReadAt_def ReadAtWithLength_def Read_def Seek_def seek_end_def Size_def
  scripted_def fresh_def reply_def clamp_def amplify_def
  recorder_def
  max64_def min64_def cache_hit_def serve_cached_def slice_def fetch_def newReq_def http_NewRequest_def
  serve_response_def deferred_def drain_close_def copy_bytes_def word_sless_alt word_sle_eq
  fmtRange_def FormatInt10_def itoa10_def digits10.simps Let_def

text \<open>
  A first ReadAt of two bytes at offset 0, with MinFetch 4 and no known size: the bytes 0
  to 3 are asked for and fetched, and they are the cache window afterwards.
\<close>

lemma first_read:
  "ReadAt scripted (fresh 4 None [reply 206 4 [1, 2, 3, 4], reply 206 4 [2, 3, 4, 5]]) [0, 0] 0 =
     ((2, None, [1, 2]),
      \<lparr>URL = ''http://h/f'', MinFetch = 4, KnownSize = None,
       Client = [reply 206 4 [2, 3, 4, 5]], url = Some ''http://h/f'', offset = 0,
       lastBuf = Some [1, 2, 3, 4], lastSpare = [], lastOffset = 0,
       wire = [(\<lparr>Method = ''GET'', ReqURL = ''http://h/f'',
                  Header = [(''Range'', ''bytes=0-3'')]\<rparr>, reply 206 4 [1, 2, 3, 4])]\<rparr>)"
  by (simp add: eval_defs)

text \<open>
  The same with a known size of 4 and the transport that records: the window left is the
  whole resource, and the client has been given one request.
\<close>

lemma first_read_recorded:
  "ReadAt (recorder (reply 206 4 [1, 2, 3, 4])) (fresh 4 (Some 4) []) [0, 0] 0 =
     ((2, None, [1, 2]),
      \<lparr>URL = ''http://h/f'', MinFetch = 4, KnownSize = Some 4,
       Client = [\<lparr>Method = ''GET'', ReqURL = ''http://h/f'',
                  Header = [(''Range'', ''bytes=0-3'')]\<rparr>],
       url = Some ''http://h/f'', offset = 0,
       lastBuf = Some [1, 2, 3, 4], lastSpare = [], lastOffset = 0,
       wire = [(\<lparr>Method = ''GET'', ReqURL = ''http://h/f'',
                  Header = [(''Range'', ''bytes=0-3'')]\<rparr>, reply 206 4 [1, 2, 3, 4])]\<rparr>)"
  by (simp add: eval_defs)

lemma newReq_fresh:
  "newReq (recorder r) (fresh m k c) =
     (Inr \<lparr>Method = ''GET'', ReqURL = ''http://h/f'', Header = []\<rparr>,
      (fresh m k c)\<lparr>url := Some ''http://h/f''\<rparr>)"
  by (simp add: newReq_def http_NewRequest_def recorder_def fresh_def)

text \<open>
  A read whose sum \<open>off + length\<close> wraps: the window holds one byte at the offset
  \<open>2 ^ 63 - 2\<close>, the array behind it three more. The end of the range asked for is
  negative and so passes the test of line 129, the upper bound of the slice of line 134
  wraps to 4, within the capacity, and the bytes after the window are served with no error.
\<close>

lemma wrapped_read_serves_spare:
  "ReadAtWithLength (recorder (Inl (Foreign 0)))
     \<lparr>URL = ''http://h/f'', MinFetch = 4, KnownSize = None,
      Client = [], url = Some ''http://h/f'', offset = 0,
      lastBuf = Some [7], lastSpare = [8, 9, 10], lastOffset = 9223372036854775806,
      wire = []\<rparr> [0, 0] 9223372036854775806 2 =
   ((2, None, [7, 8]),
     \<lparr>URL = ''http://h/f'', MinFetch = 4, KnownSize = None,
      Client = [], url = Some ''http://h/f'', offset = 0,
      lastBuf = Some [7], lastSpare = [8, 9, 10], lastOffset = 9223372036854775806,
      wire = []\<rparr>)"
  by (simp add: eval_defs)

section \<open>Properties of the specification\<close>

subsection \<open>The cache window\<close>

text \<open>
  C1, as the code has it. Let the cache window hold the bytes \<open>w\<close> at \<open>lastOffset\<close>,
  let the read get as far as the test of the window (offset and effective length \<open>L\<close>
  not negative), let no sum leave the range of int64 and let the request be constructible.
  \<open>L\<close> is the length asked for, raised to MinFetch if that is not 0, and capped by what
  the known size leaves. The read makes no exchange with the transport exactly when
  \<open>lastOffset \<le> off\<close> and \<open>off + L \<le> lastOffset + length w\<close>; it then returns
  \<open>min (len buf) L\<close> with the bytes copied out of the window and changes nothing, the
  state of the client included. Otherwise it calls \<open>Do\<close> once, on the client as it was,
  with the GET request for the range of \<open>L\<close> bytes at \<open>off\<close>: the client is left as
  that call leaves it, and the exchange recorded is that request with what \<open>Do\<close> gave
  for it. Two consecutive ReadAt calls make one exchange in total when the first one made
  one and the effective range of the second, \<open>L\<close> bytes and not \<open>len buf\<close>, is inside the
  window the first one left.
\<close>

theorem cache_window_decides_dispatch:
  assumes "lastBuf s = Some w" and "0 \<le>s lastOffset s"
    and "sint (lastOffset s) + int (length w) < 2 ^ 63"
    and "newReq env s = (Inr req0, s1)"
    and "0 \<le>s off" and "L = clamp s off (amplify s len)" and "0 \<le>s L"
    and "sint off + sint L < 2 ^ 63"
    and "req = \<lparr>Method = ''GET'', ReqURL = ReqURL req0,
                 Header = [(''Range'', fmtRange off L)]\<rparr>"
  shows "sint L =
           (case KnownSize s of
              None \<Rightarrow> (if MinFetch s = 0 then sint len else max (sint len) (sint (MinFetch s)))
            | Some S \<Rightarrow>
                min (sint (S - off))
                  (if MinFetch s = 0 then sint len else max (sint len) (sint (MinFetch s)))) \<and>
         (wire (snd (ReadAtWithLength env s buf off len)) = wire s \<longleftrightarrow>
            sint (lastOffset s) \<le> sint off \<and>
            sint off + sint L \<le> sint (lastOffset s) + int (length w)) \<and>
         (sint (lastOffset s) \<le> sint off \<and>
          sint off + sint L \<le> sint (lastOffset s) + int (length w) \<longrightarrow>
            ReadAtWithLength env s buf off len =
              ((min (int (length buf)) (sint L), None,
                copy_bytes buf
                  (take (nat (sint L)) (drop (nat (sint off - sint (lastOffset s))) w))), s)) \<and>
         (sint off < sint (lastOffset s) \<or>
          sint (lastOffset s) + int (length w) < sint off + sint L \<longrightarrow>
            wire (snd (ReadAtWithLength env s buf off len)) =
              wire s @ [(req, fst (Do env (Client s) req))] \<and>
            Client (snd (ReadAtWithLength env s buf off len)) = snd (Do env (Client s) req)) \<and>
         (\<forall>s0 buf0 off0.
            snd (ReadAt env s0 buf0 off0) = s \<and> length (wire s) = Suc (length (wire s0)) \<and>
            len = of_nat (length buf) \<and>
            sint (lastOffset s) \<le> sint off \<and>
            sint off + sint L \<le> sint (lastOffset s) + int (length w) \<longrightarrow>
              length (wire (snd (ReadAt env s buf off))) = Suc (length (wire s0)) \<and>
              Client (snd (ReadAt env s buf off)) = Client s)"
proof -
  let ?in = "sint (lastOffset s) \<le> sint off \<and>
            sint off + sint L \<le> sint (lastOffset s) + int (length w)"
  let ?r = "ReadAtWithLength env s buf off len"
  have l: "sint L =
           (case KnownSize s of
              None \<Rightarrow> (if MinFetch s = 0 then sint len else max (sint len) (sint (MinFetch s)))
            | Some S \<Rightarrow>
                min (sint (S - off))
                  (if MinFetch s = 0 then sint len else max (sint len) (sint (MinFetch s))))"
    unfolding assms(6) sint_clamp sint_amplify ..
  have iff: "cache_hit s off L \<longleftrightarrow> ?in"
    by (rule cache_hit_iff [OF assms(1,2,3,5,7,8)])
  have k: "KnownSize s = None \<or> 0 \<le>s L" using assms(7) by simp
  have hit: "?r = ((min (int (length buf)) (sint L), None,
                copy_bytes buf
                  (take (nat (sint L)) (drop (nat (sint off - sint (lastOffset s))) w))), s)"
    if "?in"
  proof -
    from that iff have "cache_hit s off L" by simp
    from ReadAtWithLength_hit [OF assms(5,6) k this assms(1)]
    have "?r = serve_cached s w buf off L" .
    with that serve_cached_in_window [OF assms(2,5,7,8), of w buf] show ?thesis by simp
  qed
  have miss: "wire (snd ?r) = wire s @ [(req, fst (Do env (Client s) req))] \<and>
            Client (snd ?r) = snd (Do env (Client s) req)"
    if "\<not> ?in"
  proof -
    from that iff have "\<not> cache_hit s off L" by simp
    from ReadAtWithLength_miss [OF assms(5,6) k this]
    have "?r = fetch env s buf off L" .
    with fetch_calls_Do [OF assms(4,9), of buf] show ?thesis by simp
  qed
  have 1: "wire (snd ?r) = wire s \<longleftrightarrow> ?in"
  proof
    assume "wire (snd ?r) = wire s"
    with miss show "?in" by auto
  next
    assume "?in"
    with hit show "wire (snd ?r) = wire s" by simp
  qed
  have 2: "?in \<longrightarrow> ?r = ((min (int (length buf)) (sint L), None,
                copy_bytes buf
                  (take (nat (sint L)) (drop (nat (sint off - sint (lastOffset s))) w))), s)"
    using hit by blast
  have 3: "sint off < sint (lastOffset s) \<or>
          sint (lastOffset s) + int (length w) < sint off + sint L \<longrightarrow>
            wire (snd ?r) = wire s @ [(req, fst (Do env (Client s) req))] \<and>
            Client (snd ?r) = snd (Do env (Client s) req)"
    using miss by auto
  have 4: "\<forall>s0 buf0 off0.
            snd (ReadAt env s0 buf0 off0) = s \<and> length (wire s) = Suc (length (wire s0)) \<and>
            len = of_nat (length buf) \<and> ?in \<longrightarrow>
              length (wire (snd (ReadAt env s buf off))) = Suc (length (wire s0)) \<and>
              Client (snd (ReadAt env s buf off)) = Client s"
    using hit by (auto simp: ReadAt_snd)
  from l 1 2 3 4 show ?thesis by (intro conjI)
qed

theorem cache_window_decides_dispatch_witness:
  "ReadAtWithLength (recorder (Inl (Foreign 0)))
     \<lparr>URL = ''http://h/f'', MinFetch = 4, KnownSize = None,
      Client = [], url = Some ''http://h/f'', offset = 0,
      lastBuf = Some [1, 2, 3, 4], lastSpare = [], lastOffset = 0, wire = []\<rparr> [0, 0] 0 2 =
   ((2, None, [1, 2]),
     \<lparr>URL = ''http://h/f'', MinFetch = 4, KnownSize = None,
      Client = [], url = Some ''http://h/f'', offset = 0,
      lastBuf = Some [1, 2, 3, 4], lastSpare = [], lastOffset = 0, wire = []\<rparr>) \<and>
   Client (snd (ReadAtWithLength (recorder (Inl (Foreign 0)))
     \<lparr>URL = ''http://h/f'', MinFetch = 4, KnownSize = None,
      Client = [], url = Some ''http://h/f'', offset = 0,
      lastBuf = Some [1, 2, 3, 4], lastSpare = [], lastOffset = 0, wire = []\<rparr> [0, 0] 1 2)) =
     [\<lparr>Method = ''GET'', ReqURL = ''http://h/f'', Header = [(''Range'', ''bytes=1-4'')]\<rparr>] \<and>
   wire (snd (ReadAtWithLength (recorder (Inl (Foreign 0)))
     \<lparr>URL = ''http://h/f'', MinFetch = 4, KnownSize = None,
      Client = [], url = Some ''http://h/f'', offset = 0,
      lastBuf = Some [1, 2, 3, 4], lastSpare = [], lastOffset = 0, wire = []\<rparr> [0, 0] 1 2)) =
     [(\<lparr>Method = ''GET'', ReqURL = ''http://h/f'', Header = [(''Range'', ''bytes=1-4'')]\<rparr>,
       Inl (Foreign 0))] \<and>
   Client (snd (ReadAt (recorder (reply 206 4 [1, 2, 3, 4]))
     (snd (ReadAt (recorder (reply 206 4 [1, 2, 3, 4])) (fresh 4 (Some 4) []) [0, 0] 0))
     [0, 0] 1)) =
     [\<lparr>Method = ''GET'', ReqURL = ''http://h/f'', Header = [(''Range'', ''bytes=0-3'')]\<rparr>] \<and>
   length (wire (snd (ReadAt (recorder (reply 206 4 [1, 2, 3, 4]))
     (snd (ReadAt (recorder (reply 206 4 [1, 2, 3, 4])) (fresh 4 (Some 4) []) [0, 0] 0))
     [0, 0] 1))) = 1"
proof -
  let ?e = "recorder (Inl (Foreign 0))"
  let ?s = "\<lparr>URL = ''http://h/f'', MinFetch = 4, KnownSize = None,
      Client = [] :: request list, url = Some ''http://h/f'', offset = 0,
      lastBuf = Some [1, 2, 3, 4], lastSpare = [], lastOffset = 0, wire = []\<rparr>"
  let ?rq = "\<lparr>Method = ''GET'', ReqURL = ''http://h/f'', Header = [(''Range'', ''bytes=1-4'')]\<rparr>"
  have w: "lastBuf ?s = Some [1, 2, 3, 4]" by simp
  have o: "0 \<le>s lastOffset ?s" by simp
  have b: "sint (lastOffset ?s) + int (length [1, 2, 3, 4 :: byte]) < 2 ^ 63" by simp
  have n: "newReq ?e ?s =
      (Inr \<lparr>Method = ''GET'', ReqURL = ''http://h/f'', Header = []\<rparr>, ?s)"
    by (simp add: newReq_def http_NewRequest_def recorder_def)
  have l: "(4 :: int64) = clamp ?s off (amplify ?s 2)" for off
    by (simp add: clamp_def amplify_def max64_def word_sless_alt)
  have p: "(0 :: int64) \<le>s 4" "(0 :: int64) \<le>s 0" "(0 :: int64) \<le>s 1"
    "(0 :: int64) \<le>s 3"
    by (simp_all add: word_sle_eq)
  have r0: "sint (0 :: int64) + sint (4 :: int64) < 2 ^ 63"
    and r1: "sint (1 :: int64) + sint (4 :: int64) < 2 ^ 63"
    and r2: "sint (1 :: int64) + sint (3 :: int64) < 2 ^ 63" by simp_all
  have f: "fmtRange 1 4 = ''bytes=1-4''"
    by (simp add: fmtRange_def FormatInt10_def itoa10_def digits10.simps)
  note hit = cache_window_decides_dispatch [OF w o b n p(2) l p(1) r0 refl, of "[0, 0]"]
  note miss = cache_window_decides_dispatch [OF w o b n p(3) l p(1) r1 refl, of "[0, 0]"]
  from hit [THEN conjunct2, THEN conjunct2, THEN conjunct1]
  have 1: "ReadAtWithLength ?e ?s [0, 0] 0 2 = ((2, None, [1, 2]), ?s)"
    by (simp add: copy_bytes_def)
  from miss [THEN conjunct2, THEN conjunct2, THEN conjunct2, THEN conjunct1]
  have 2: "wire (snd (ReadAtWithLength ?e ?s [0, 0] 1 2)) = [(?rq, Inl (Foreign 0))] \<and>
      Client (snd (ReadAtWithLength ?e ?s [0, 0] 1 2)) = [?rq]"
    by (simp add: f) (simp add: recorder_def)
  let ?g = "recorder (reply 206 4 [1, 2, 3, 4])"
  let ?q0 = "\<lparr>Method = ''GET'', ReqURL = ''http://h/f'', Header = [(''Range'', ''bytes=0-3'')]\<rparr>"
  let ?t = "\<lparr>URL = ''http://h/f'', MinFetch = 4, KnownSize = Some 4,
       Client = [?q0], url = Some ''http://h/f'', offset = 0,
       lastBuf = Some [1, 2, 3, 4], lastSpare = [], lastOffset = 0,
       wire = [(?q0, reply 206 4 [1, 2, 3, 4])]\<rparr>"
  have t: "snd (ReadAt ?g (fresh 4 (Some 4) []) [0, 0] 0) = ?t"
    by (simp add: first_read_recorded)
  have wt: "lastBuf ?t = Some [1, 2, 3, 4]" by simp
  have ot: "0 \<le>s lastOffset ?t" by simp
  have bt: "sint (lastOffset ?t) + int (length [1, 2, 3, 4 :: byte]) < 2 ^ 63" by simp
  have nt: "newReq ?g ?t =
      (Inr \<lparr>Method = ''GET'', ReqURL = ''http://h/f'', Header = []\<rparr>, ?t)"
    by (simp add: newReq_def http_NewRequest_def recorder_def)
  have lt: "(3 :: int64) = clamp ?t 1 (amplify ?t 2)"
    by (simp add: clamp_def amplify_def max64_def min64_def word_sless_alt)
  have h: "snd (ReadAt ?g (fresh 4 (Some 4) []) [0, 0] 0) = ?t \<and>
      length (wire ?t) = Suc (length (wire (fresh 4 (Some 4) [] :: request list SeekingHTTP))) \<and>
      (2 :: int64) = of_nat (length [0, 0 :: byte]) \<and>
      sint (lastOffset ?t) \<le> sint (1 :: int64) \<and>
      sint (1 :: int64) + sint (3 :: int64) \<le> sint (lastOffset ?t) + int (length [1, 2, 3, 4 :: byte])"
    by (simp add: t) (simp add: fresh_def)
  note two = cache_window_decides_dispatch [OF wt ot bt nt p(3) lt p(4) r2 refl, of "[0, 0]"]
  from two [THEN conjunct2, THEN conjunct2, THEN conjunct2, THEN conjunct2, rule_format, OF h]
  have 3: "Client (snd (ReadAt ?g ?t [0, 0] 1)) = [?q0] \<and>
      length (wire (snd (ReadAt ?g ?t [0, 0] 1))) = 1"
    by (simp add: fresh_def)
  from 1 2 3 show ?thesis by (simp add: t)
qed

text \<open>
  With MinFetch 4 and no known size, ReadAt of two bytes at offset 0 fetches the window of
  the bytes 0 to 3. A second ReadAt of two bytes at offset 1 asks for bytes inside that
  window, but its effective length is 4, which ends beyond it: a second request is sent.
\<close>

theorem contained_read_is_fetched_again:
  "lastOffset (snd (ReadAt scripted
      (fresh 4 None [reply 206 4 [1, 2, 3, 4], reply 206 4 [2, 3, 4, 5]]) [0, 0] 0)) = 0 \<and>
   lastBuf (snd (ReadAt scripted
      (fresh 4 None [reply 206 4 [1, 2, 3, 4], reply 206 4 [2, 3, 4, 5]]) [0, 0] 0)) =
     Some [1, 2, 3, 4] \<and>
   length (wire (snd (ReadAt scripted
      (fresh 4 None [reply 206 4 [1, 2, 3, 4], reply 206 4 [2, 3, 4, 5]]) [0, 0] 0))) = 1 \<and>
   length (wire (snd (ReadAt scripted (snd (ReadAt scripted
      (fresh 4 None [reply 206 4 [1, 2, 3, 4], reply 206 4 [2, 3, 4, 5]]) [0, 0] 0))
      [0, 0] 1))) = 2"
  unfolding first_read by (simp add: eval_defs)

subsection \<open>The known size as a bound\<close>

text \<open>
  C2, as the code has it. With a known size \<open>S\<close> and an offset, both not negative: the
  length is raised to MinFetch if that is not 0, then capped to \<open>S - off\<close>. The capped
  length \<open>E\<close> is negative exactly when the offset is beyond \<open>S\<close> (or the length was
  negative already); then the read returns zero bytes and io.EOF and changes nothing. With
  \<open>E\<close> not negative the read goes on: when it misses the window and the request can be
  made, \<open>Do\<close> is called once with the GET request for the range of \<open>E\<close> bytes at
  \<open>off\<close>, and when it hits the window, \<open>min (len buf) E\<close> bytes are served from there
  with no error. At the offset \<open>S\<close> itself \<open>E\<close> is 0 and the range asked for is
  bytes=S-S. A request, if one is sent, carries the range of the capped length, and the
  count returned is at most \<open>max 0 (S - off)\<close>.
\<close>

theorem known_size_clamps_read:
  assumes "KnownSize s = Some S" and "0 \<le>s S" and "0 \<le>s off"
    and "ReadAtWithLength env s buf off len = ((n, err, buf'), s')"
    and "E = clamp s off (amplify s len)"
  shows "sint (amplify s len) =
           (if MinFetch s = 0 then sint len else max (sint len) (sint (MinFetch s))) \<and>
         sint E = min (sint S - sint off) (sint (amplify s len)) \<and>
         (sint E < 0 \<longleftrightarrow> sint S < sint off \<or> sint (amplify s len) < 0) \<and>
         (sint E < 0 \<longrightarrow> n = 0 \<and> err = Some io_EOF \<and> buf' = buf \<and> s' = s) \<and>
         (\<forall>req0 s1 req.
            0 \<le> sint E \<and> \<not> cache_hit s off E \<and> newReq env s = (Inr req0, s1) \<and>
            req = \<lparr>Method = ''GET'', ReqURL = ReqURL req0,
                    Header = [(''Range'', fmtRange off E)]\<rparr> \<longrightarrow>
              wire s' = wire s @ [(req, fst (Do env (Client s) req))] \<and>
              Client s' = snd (Do env (Client s) req)) \<and>
         (\<forall>w. 0 \<le> sint E \<and> cache_hit s off E \<and> lastBuf s = Some w \<and>
              0 \<le> sint (lastOffset s) \<and> sint (lastOffset s) + int (length w) < 2 ^ 63 \<longrightarrow>
              n = min (int (length buf)) (sint E) \<and> err = None \<and> s' = s \<and>
              buf' = copy_bytes buf
                (take (nat (sint E)) (drop (nat (sint off - sint (lastOffset s))) w))) \<and>
         (sint off = sint S \<and> 0 \<le> sint (amplify s len) \<longrightarrow>
            E = 0 \<and>
            fmtRange off E = ''bytes='' @ itoa10 (sint S) @ ''-'' @ itoa10 (sint S)) \<and>
         (wire s' = wire s \<and> Client s' = Client s \<or>
          (\<exists>req. Method req = ''GET'' \<and> Header req = [(''Range'', fmtRange off E)] \<and>
             wire s' = wire s @ [(req, fst (Do env (Client s) req))] \<and>
             Client s' = snd (Do env (Client s) req))) \<and>
         n \<le> max 0 (sint S - sint off)"
proof -
  let ?R = "ReadAtWithLength env s buf off len"
  have a: "sint (amplify s len) =
           (if MinFetch s = 0 then sint len else max (sint len) (sint (MinFetch s)))"
    by (rule sint_amplify)
  have e: "sint E = min (sint S - sint off) (sint (amplify s len))"
    unfolding assms(5) by (rule sint_clamp_known [OF assms(1-3)])
  from e have neg: "sint E < 0 \<longleftrightarrow> sint S < sint off \<or> sint (amplify s len) < 0"
    by auto
  have eof: "sint E < 0 \<longrightarrow> n = 0 \<and> err = Some io_EOF \<and> buf' = buf \<and> s' = s"
    using assms(1,3,4,5)
    by (auto simp: ReadAtWithLength_def Let_def word_sless_alt word_sle_eq)
  have miss: "\<forall>req0 s1 req.
            0 \<le> sint E \<and> \<not> cache_hit s off E \<and> newReq env s = (Inr req0, s1) \<and>
            req = \<lparr>Method = ''GET'', ReqURL = ReqURL req0,
                    Header = [(''Range'', fmtRange off E)]\<rparr> \<longrightarrow>
              wire s' = wire s @ [(req, fst (Do env (Client s) req))] \<and>
              Client s' = snd (Do env (Client s) req)"
  proof (intro allI impI)
    fix req0 s1 req
    assume h: "0 \<le> sint E \<and> \<not> cache_hit s off E \<and> newReq env s = (Inr req0, s1) \<and>
            req = \<lparr>Method = ''GET'', ReqURL = ReqURL req0,
                    Header = [(''Range'', fmtRange off E)]\<rparr>"
    then have k: "KnownSize s = None \<or> 0 \<le>s E" by (simp add: word_sle_eq)
    from h have c: "\<not> cache_hit s off E" and nr: "newReq env s = (Inr req0, s1)"
      and rq: "req = \<lparr>Method = ''GET'', ReqURL = ReqURL req0,
                    Header = [(''Range'', fmtRange off E)]\<rparr>" by simp_all
    from ReadAtWithLength_miss [OF assms(3,5) k c]
    have "?R = fetch env s buf off E" .
    with fetch_calls_Do [OF nr rq, of buf] assms(4)
    show "wire s' = wire s @ [(req, fst (Do env (Client s) req))] \<and>
              Client s' = snd (Do env (Client s) req)" by simp
  qed
  have hit: "\<forall>w. 0 \<le> sint E \<and> cache_hit s off E \<and> lastBuf s = Some w \<and>
              0 \<le> sint (lastOffset s) \<and> sint (lastOffset s) + int (length w) < 2 ^ 63 \<longrightarrow>
              n = min (int (length buf)) (sint E) \<and> err = None \<and> s' = s \<and>
              buf' = copy_bytes buf
                (take (nat (sint E)) (drop (nat (sint off - sint (lastOffset s))) w))"
  proof (intro allI impI)
    fix w
    assume h: "0 \<le> sint E \<and> cache_hit s off E \<and> lastBuf s = Some w \<and>
              0 \<le> sint (lastOffset s) \<and> sint (lastOffset s) + int (length w) < 2 ^ 63"
    then have k: "KnownSize s = None \<or> 0 \<le>s E" and E0: "0 \<le>s E"
      and lo: "0 \<le>s lastOffset s" by (simp_all add: word_sle_eq)
    from h have c: "cache_hit s off E" and w: "lastBuf s = Some w"
      and we: "sint (lastOffset s) + int (length w) < 2 ^ 63" by simp_all
    from e assms(2,3) sint64_bounds [of S] have r: "sint off + sint E < 2 ^ 63"
      by (simp add: word_sle_eq)
    from cache_hit_iff [OF w lo we assms(3) E0 r] c
    have i: "sint (lastOffset s) \<le> sint off"
      "sint off + sint E \<le> sint (lastOffset s) + int (length w)" by simp_all
    from ReadAtWithLength_hit [OF assms(3,5) k c w]
    have "?R = serve_cached s w buf off E" .
    with serve_cached_in_window [OF lo assms(3) E0 r i, of buf] assms(4)
    have "((n, err, buf'), s') =
        ((min (int (length buf)) (sint E), None,
          copy_bytes buf
            (take (nat (sint E)) (drop (nat (sint off - sint (lastOffset s))) w))), s)"
      by (simp only:)
    then show "n = min (int (length buf)) (sint E) \<and> err = None \<and> s' = s \<and>
              buf' = copy_bytes buf
                (take (nat (sint E)) (drop (nat (sint off - sint (lastOffset s))) w))"
      by (simp only: prod.inject)
  qed
  have probe: "sint off = sint S \<and> 0 \<le> sint (amplify s len) \<longrightarrow>
            E = 0 \<and>
            fmtRange off E = ''bytes='' @ itoa10 (sint S) @ ''-'' @ itoa10 (sint S)"
  proof
    assume h: "sint off = sint S \<and> 0 \<le> sint (amplify s len)"
    with e have "sint E = 0" by simp
    then have "E = 0" by (simp add: signed_eq_0_iff)
    with h show "E = 0 \<and>
            fmtRange off E = ''bytes='' @ itoa10 (sint S) @ ''-'' @ itoa10 (sint S)"
      by (simp add: fmtRange_zero)
  qed
  from ReadAtWithLength_exchange_or_not [of env s buf off len] assms(4,5)
  have w: "wire s' = wire s \<and> Client s' = Client s \<or>
          (\<exists>req. Method req = ''GET'' \<and> Header req = [(''Range'', fmtRange off E)] \<and>
             wire s' = wire s @ [(req, fst (Do env (Client s) req))] \<and>
             Client s' = snd (Do env (Client s) req))"
    by simp
  from ReadAtWithLength_count [of env s buf off len] assms(4,5) e
  have c: "n \<le> max 0 (sint S - sint off)" by simp
  from a e neg eof miss hit probe w c show ?thesis by (intro conjI)
qed

theorem known_size_clamps_read_witness:
  "sint (clamp (fresh 8 (Some 10) [] :: request list SeekingHTTP) 4
          (amplify (fresh 8 (Some 10) [] :: request list SeekingHTTP) 2)) = 6 \<and>
   fst (fst (ReadAtWithLength (recorder (reply 206 6 [1, 2, 3, 4, 5, 6]))
          (fresh 8 (Some 10) []) [0, 0] 4 2)) \<le> 6 \<and>
   ReadAtWithLength (recorder (reply 416 0 [])) (fresh 8 (Some 10) []) [0, 0] 12 2 =
     ((0, Some io_EOF, [0, 0]), fresh 8 (Some 10) []) \<and>
   Client (snd (ReadAtWithLength (recorder (reply 416 0 [])) (fresh 8 (Some 10) [])
      [0, 0] 10 2)) =
     [\<lparr>Method = ''GET'', ReqURL = ''http://h/f'', Header = [(''Range'', ''bytes=10-10'')]\<rparr>]"
proof -
  let ?e = "recorder (reply 416 0 [])"
  let ?e6 = "recorder (reply 206 6 [1, 2, 3, 4, 5, 6])"
  let ?s = "fresh 8 (Some 10) [] :: request list SeekingHTTP"
  let ?r = "ReadAtWithLength ?e6 ?s [0, 0] 4 2"
  let ?q = "ReadAtWithLength ?e ?s [0, 0] 12 2"
  let ?b = "ReadAtWithLength ?e ?s [0, 0] 10 2"
  let ?rq = "\<lparr>Method = ''GET'', ReqURL = ''http://h/f'',
      Header = [(''Range'', fmtRange 10 (clamp ?s 10 (amplify ?s 2)))]\<rparr>"
  have k: "KnownSize ?s = Some 10" by (simp add: fresh_def)
  have p: "(0 :: int64) \<le>s 10" "(0 :: int64) \<le>s 4" "(0 :: int64) \<le>s 12"
    by (simp_all add: word_sle_eq)
  have m: "MinFetch ?s = 8" "Client ?s = []" by (simp_all add: fresh_def)
  have r: "?r = ((fst (fst ?r), fst (snd (fst ?r)), snd (snd (fst ?r))), snd ?r)" by simp
  have q: "?q = ((fst (fst ?q), fst (snd (fst ?q)), snd (snd (fst ?q))), snd ?q)" by simp
  have b: "?b = ((fst (fst ?b), fst (snd (fst ?b)), snd (snd (fst ?b))), snd ?b)" by simp
  note tr = known_size_clamps_read [OF k p(1) p(2) r refl]
  note tq = known_size_clamps_read [OF k p(1) p(3) q refl]
  note tb = known_size_clamps_read [OF k p(1) p(1) b refl]
  from tr have 1: "sint (clamp ?s 4 (amplify ?s 2)) = 6" "fst (fst ?r) \<le> 6"
    by (simp_all add: m)
  from tq [THEN conjunct2, THEN conjunct2, THEN conjunct1]
    tq [THEN conjunct2, THEN conjunct2, THEN conjunct2, THEN conjunct1]
  have "fst (fst ?q) = 0 \<and> fst (snd (fst ?q)) = Some io_EOF \<and> snd (snd (fst ?q)) = [0, 0] \<and>
      snd ?q = ?s"
    by (simp add: sint_amplify m)
  then have 2: "?q = ((0, Some io_EOF, [0, 0]), ?s)"
    by (metis prod.collapse)
  have e: "clamp ?s 10 (amplify ?s 2) = 0"
    by (simp add: clamp_def amplify_def max64_def min64_def fresh_def word_sless_alt)
  have h: "0 \<le> sint (clamp ?s 10 (amplify ?s 2)) \<and>
      \<not> cache_hit ?s 10 (clamp ?s 10 (amplify ?s 2)) \<and>
      newReq ?e ?s = (Inr \<lparr>Method = ''GET'', ReqURL = ''http://h/f'', Header = []\<rparr>,
                      ?s\<lparr>url := Some ''http://h/f''\<rparr>) \<and>
      ?rq = \<lparr>Method = ''GET'',
             ReqURL = ReqURL \<lparr>Method = ''GET'', ReqURL = ''http://h/f'', Header = []\<rparr>,
             Header = [(''Range'', fmtRange 10 (clamp ?s 10 (amplify ?s 2)))]\<rparr>"
    by (simp add: e newReq_fresh) (simp add: cache_hit_def fresh_def)
  from tb [THEN conjunct2, THEN conjunct2, THEN conjunct2, THEN conjunct2, THEN conjunct1,
      rule_format, OF h]
  have "Client (snd ?b) = snd (Do ?e (Client ?s) ?rq)" by simp
  then have 3: "Client (snd ?b) =
     [\<lparr>Method = ''GET'', ReqURL = ''http://h/f'', Header = [(''Range'', ''bytes=10-10'')]\<rparr>]"
    by (simp add: e m recorder_def fmtRange_def FormatInt10_def itoa10_def digits10.simps)
  from 1 2 3 show ?thesis by (intro conjI)
qed

text \<open>
  At the offset 10 of a resource of known size 10 the capped length is 0, not negative, and
  the read sends the request for the range 10-10.
\<close>

theorem read_at_known_end_is_dispatched:
  "sint (clamp (fresh 0 (Some 10) [reply 416 0 []]) 10
           (amplify (fresh 0 (Some 10) [reply 416 0 []]) 4)) = 0 \<and>
   ReadAtWithLength scripted (fresh 0 (Some 10) [reply 416 0 []]) [0, 0, 0, 0] 10 4 =
     ((0, Some io_EOF, [0, 0, 0, 0]),
      (fresh 0 (Some 10) [])\<lparr>url := Some ''http://h/f'',
         wire := [(\<lparr>Method = ''GET'', ReqURL = ''http://h/f'',
                     Header = [(''Range'', ''bytes=10-10'')]\<rparr>, reply 416 0 [])]\<rparr>)"
  by (simp add: eval_defs)

subsection \<open>The content length of a response\<close>

text \<open>
  C3. A response without a Content-Length header has the content length -1. Line 198 tests
  for 0 only, so that for such a response, here with status 206 and a body of three bytes,
  line 201 finds the three bytes read different from -1 and the read fails with the error
  of line 202. The comment of line 199 gives the branch of line 198 to the header that was
  not set, and line 287, in Size, knows the missing length as a negative one.
\<close>

theorem absent_content_length_is_an_error:
  "fst (ReadAtWithLength scripted (fresh 0 None [reply 206 (- 1) [1, 2, 3]]) [0, 0, 0] 0 3) =
     (0, Some (ErrContentLength 3 (- 1)), [0, 0, 0])"
  by (simp add: eval_defs)

subsection \<open>Seek from the end, out of range\<close>

text \<open>
  C4, as the code has it. When the size \<open>S\<close> is known or found by Size, and the sum
  \<open>S + off\<close> (which wraps) is greater than \<open>S\<close> or negative, Seek from the end returns
  0 and io.EOF, and the cursor is left at \<open>S + off\<close>: line 259 assigns it before line 260
  tests it, and nothing restores it. With a size that is not negative, the Read that follows
  starts there and returns zero bytes and io.EOF without a call of the transport.
\<close>

theorem seek_end_out_of_range:
  assumes "Size env s = ((S, None), s1)"
    and "S <s S + off \<or> S + off <s 0"
  shows "Seek env s off 2 = ((0, Some io_EOF), s1\<lparr>offset := S + off\<rparr>) \<and>
         (0 \<le>s S \<longrightarrow>
            Read env (s1\<lparr>offset := S + off\<rparr>) buf =
              ((0, Some io_EOF, buf), s1\<lparr>offset := S + off\<rparr>))"
proof -
  have seek: "Seek env s off 2 = seek_end s1 S off"
  proof (cases "KnownSize s")
    case None
    with assms(1) show ?thesis by (simp add: Seek_def)
  next
    case (Some k)
    with assms(1) show ?thesis by (simp add: Seek_def Size_def)
  qed
  from assms(2) have 1: "seek_end s1 S off = ((0, Some io_EOF), s1\<lparr>offset := S + off\<rparr>)"
    by (simp add: seek_end_def Let_def)
  have 2: "Read env (s1\<lparr>offset := S + off\<rparr>) buf =
              ((0, Some io_EOF, buf), s1\<lparr>offset := S + off\<rparr>)" if "0 \<le>s S"
  proof (cases "S + off <s 0")
    case True
    then show ?thesis by (intro read_negative_cursor) simp
  next
    case False
    with assms(2) have "S <s S + off" by simp
    with that Size_sets_KnownSize [OF assms(1)] show ?thesis
      by (intro read_past_known_size [where S = S]) simp_all
  qed
  from seek 1 2 show ?thesis by simp
qed

theorem seek_end_out_of_range_witness:
  "Seek scripted ((fresh 0 (Some 10) [])\<lparr>offset := 3\<rparr>) 5 2 =
     ((0, Some io_EOF), (fresh 0 (Some 10) [])\<lparr>offset := 15\<rparr>) \<and>
   Read scripted ((fresh 0 (Some 10) [])\<lparr>offset := 15\<rparr>) [0, 0] =
     ((0, Some io_EOF, [0, 0]), (fresh 0 (Some 10) [])\<lparr>offset := 15\<rparr>)"
proof -
  have 1: "Size scripted ((fresh 0 (Some 10) [])\<lparr>offset := 3\<rparr>) =
      ((10, None), (fresh 0 (Some 10) [])\<lparr>offset := 3\<rparr>)"
    by (simp add: Size_def fresh_def)
  have 2: "(10 :: int64) <s 10 + 5 \<or> (10 :: int64) + 5 <s 0"
    by (simp add: word_sless_alt)
  have 3: "(0 :: int64) \<le>s 10" by (simp add: word_sle_eq)
  from seek_end_out_of_range [OF 1 2, of "[0, 0]"] 3 show ?thesis by simp
qed

text \<open>
  The cursor does not keep its value: with the size 10 known and the cursor at 3, the
  failed Seek(5, io.SeekEnd) leaves it at 15.
\<close>

theorem failed_seek_end_moves_cursor:
  "fst (Seek scripted ((fresh 0 (Some 10) [])\<lparr>offset := 3\<rparr>) 5 2) = (0, Some io_EOF) \<and>
   offset ((fresh 0 (Some 10) [] :: (error + response) list SeekingHTTP)\<lparr>offset := 3\<rparr>) = 3 \<and>
   offset (snd (Seek scripted ((fresh 0 (Some 10) [])\<lparr>offset := 3\<rparr>) 5 2)) = 15"
  by (simp add: Seek_def seek_end_def fresh_def word_sless_alt)

subsection \<open>The cursor after a Seek\<close>

text \<open>
  C5, as the code has it. Seek from the start always returns the offset given, with no
  error, and makes it the cursor; Seek from the current position always returns the sum of
  cursor and offset (which wraps), with no error, and makes it the cursor: neither is
  tested, so that both succeed with a negative cursor too. Seek from the end, with the size
  \<open>S\<close> known or found by Size, returns \<open>S + off\<close> with no error exactly when that is
  between 0 and \<open>S\<close>, and 0 with io.EOF otherwise; when Size fails, its error is returned.
  After any Seek that returns no error the result is the cursor. A negative cursor is met
  by the next Read, which returns zero bytes and io.EOF at once (line 110).
\<close>

theorem seek_success_cursor:
  "Seek env s off 0 = ((off, None), s\<lparr>offset := off\<rparr>) \<and>
   Seek env s off 1 = ((offset s + off, None), s\<lparr>offset := offset s + off\<rparr>) \<and>
   (\<forall>S s1. Size env s = ((S, None), s1) \<longrightarrow>
      Seek env s off 2 =
        (if 0 \<le> sint (S + off) \<and> sint (S + off) \<le> sint S
         then ((S + off, None), s1\<lparr>offset := S + off\<rparr>)
         else ((0, Some io_EOF), s1\<lparr>offset := S + off\<rparr>))) \<and>
   (\<forall>S e s1. Size env s = ((S, Some e), s1) \<longrightarrow> Seek env s off 2 = ((0, Some e), s1)) \<and>
   (\<forall>p s'. Seek env s off whence = ((p, None), s') \<longrightarrow>
      p = offset s' \<and>
      (whence = 2 \<longrightarrow>
         (\<exists>S. KnownSize s' = Some S \<and> offset s' = S + off \<and>
              0 \<le> sint (offset s') \<and> sint (offset s') \<le> sint S))) \<and>
   (\<forall>t. sint (offset t) < 0 \<longrightarrow> Read env t buf = ((0, Some io_EOF, buf), t))"
proof -
  have e: "\<forall>S s1. Size env s = ((S, None), s1) \<longrightarrow>
      Seek env s off 2 =
        (if 0 \<le> sint (S + off) \<and> sint (S + off) \<le> sint S
         then ((S + off, None), s1\<lparr>offset := S + off\<rparr>)
         else ((0, Some io_EOF), s1\<lparr>offset := S + off\<rparr>))"
    by (auto simp: Seek_end_resolved seek_end_def Let_def word_sless_alt)
  have f: "\<forall>S e s1. Size env s = ((S, Some e), s1) \<longrightarrow> Seek env s off 2 = ((0, Some e), s1)"
    by (simp add: Seek_end_Size_fails)
  have p: "\<forall>p s'. Seek env s off whence = ((p, None), s') \<longrightarrow>
      p = offset s' \<and>
      (whence = 2 \<longrightarrow>
         (\<exists>S. KnownSize s' = Some S \<and> offset s' = S + off \<and>
              0 \<le> sint (offset s') \<and> sint (offset s') \<le> sint S))"
  proof (intro allI impI conjI)
    fix p s'
    assume a: "Seek env s off whence = ((p, None), s')"
    then show "p = offset s'"
      by (auto simp: Seek_def seek_end_def Let_def split: if_splits option.splits prod.splits)
    assume "whence = 2"
    with a seek_end_success [of env s off p s']
    show "\<exists>S. KnownSize s' = Some S \<and> offset s' = S + off \<and>
              0 \<le> sint (offset s') \<and> sint (offset s') \<le> sint S"
      by (auto simp: word_sle_eq)
  qed
  have r: "\<forall>t. sint (offset t) < 0 \<longrightarrow> Read env t buf = ((0, Some io_EOF, buf), t)"
    by (simp add: read_negative_cursor word_sless_alt)
  from Seek_start Seek_current e f p r show ?thesis by (intro conjI)
qed

theorem seek_success_cursor_witness:
  "Seek scripted (fresh 0 None []) (- 1) 0 = ((- 1, None), (fresh 0 None [])\<lparr>offset := - 1\<rparr>) \<and>
   Seek scripted ((fresh 0 None [])\<lparr>offset := 3\<rparr>) (- 5) 1 =
     ((- 2, None), (fresh 0 None [])\<lparr>offset := - 2\<rparr>) \<and>
   Seek scripted (fresh 0 (Some 10) []) (- 4) 2 =
     ((6, None), (fresh 0 (Some 10) [])\<lparr>offset := 6\<rparr>) \<and>
   Seek scripted (fresh 0 (Some 10) []) (- 11) 2 =
     ((0, Some io_EOF), (fresh 0 (Some 10) [])\<lparr>offset := - 1\<rparr>) \<and>
   Read scripted ((fresh 0 None [])\<lparr>offset := - 1\<rparr>) [0, 0] =
     ((0, Some io_EOF, [0, 0]), (fresh 0 None [])\<lparr>offset := - 1\<rparr>)"
proof -
  let ?k = "fresh 0 (Some 10) [] :: (error + response) list SeekingHTTP"
  let ?u = "fresh 0 None [] :: (error + response) list SeekingHTTP"
  have sz: "Size scripted ?k = ((10, None), ?k)"
    by (simp add: Size_def fresh_def)
  have neg: "sint (offset (?u\<lparr>offset := - 1\<rparr>)) < 0" by simp
  note a = seek_success_cursor [of scripted ?u "- 1" 0 "[0, 0]"]
  note b = seek_success_cursor [of scripted "?u\<lparr>offset := 3\<rparr>" "- 5" 1 "[0, 0]"]
  note c = seek_success_cursor [of scripted ?k "- 4" 2 "[0, 0]"]
  note d = seek_success_cursor [of scripted ?k "- 11" 2 "[0, 0]"]
  from a have 1: "Seek scripted ?u (- 1) 0 = ((- 1, None), ?u\<lparr>offset := - 1\<rparr>)"
    by (rule conjunct1)
  from b [THEN conjunct2, THEN conjunct1]
  have 2: "Seek scripted (?u\<lparr>offset := 3\<rparr>) (- 5) 1 = ((- 2, None), ?u\<lparr>offset := - 2\<rparr>)"
    by simp
  from c [THEN conjunct2, THEN conjunct2, THEN conjunct1, rule_format, OF sz]
  have 3: "Seek scripted ?k (- 4) 2 = ((6, None), ?k\<lparr>offset := 6\<rparr>)"
    by simp
  from d [THEN conjunct2, THEN conjunct2, THEN conjunct1, rule_format, OF sz]
  have 4: "Seek scripted ?k (- 11) 2 = ((0, Some io_EOF), ?k\<lparr>offset := - 1\<rparr>)"
    by simp
  from a [THEN conjunct2, THEN conjunct2, THEN conjunct2, THEN conjunct2, THEN conjunct2,
      rule_format, OF neg]
  have 5: "Read scripted (?u\<lparr>offset := - 1\<rparr>) [0, 0] =
     ((0, Some io_EOF, [0, 0]), ?u\<lparr>offset := - 1\<rparr>)" .
  from 1 2 3 4 5 show ?thesis by (intro conjI)
qed

text \<open>Seek(-1, io.SeekStart) returns no error and leaves the cursor at -1.\<close>

theorem seek_start_negative_succeeds:
  "fst (Seek scripted (fresh 0 None []) (- 1) 0) = (- 1, None) \<and>
   sint (offset (snd (Seek scripted (fresh 0 None []) (- 1) 0))) = - 1"
  by (simp add: Seek_def)

subsection \<open>The range that is asked for\<close>

text \<open>
  C6, as the code has it. When MinFetch is not 0 and the length asked for is less, the
  read gets as far as the test of the window and misses it, and the request can be made,
  then \<open>Do\<close> is called once, on the client as it was, with the GET request whose only
  header is Range for the effective length \<open>E\<close>; the client is left as that call
  leaves it. \<open>E\<close> is MinFetch, or what the known size leaves after the offset if that is
  less. For \<open>E = 0\<close> the header is bytes=off-off; otherwise its end is the int64 sum
  \<open>off + (E - 1)\<close>, which is \<open>off + E - 1\<close> only as long as that is in the range of
  int64 and wraps around beyond it.
\<close>

theorem amplified_range_is_dispatched:
  assumes "MinFetch s \<noteq> 0" and "len <s MinFetch s"
    and "E = clamp s off (amplify s len)"
    and "0 \<le>s off" and "KnownSize s = None \<or> 0 \<le>s E" and "\<not> cache_hit s off E"
    and "newReq env s = (Inr req0, s1)"
    and "req = \<lparr>Method = ''GET'', ReqURL = ReqURL req0,
                 Header = [(''Range'', fmtRange off E)]\<rparr>"
  shows "sint (amplify s len) = sint (MinFetch s) \<and>
         sint E = (case KnownSize s of None \<Rightarrow> sint (MinFetch s)
                   | Some S \<Rightarrow> min (sint (S - off)) (sint (MinFetch s))) \<and>
         (\<forall>S. KnownSize s = Some S \<and> 0 \<le> sint S \<longrightarrow>
            sint E = min (sint S - sint off) (sint (MinFetch s))) \<and>
         wire (snd (ReadAtWithLength env s buf off len)) =
           wire s @ [(req, fst (Do env (Client s) req))] \<and>
         Client (snd (ReadAtWithLength env s buf off len)) = snd (Do env (Client s) req) \<and>
         (E = 0 \<longrightarrow>
            fmtRange off E = ''bytes='' @ itoa10 (sint off) @ ''-'' @ itoa10 (sint off)) \<and>
         (E \<noteq> 0 \<longrightarrow>
            fmtRange off E =
              ''bytes='' @ itoa10 (sint off) @ ''-'' @ itoa10 (sint (off + (E - 1)))) \<and>
         (- (2 ^ 63) \<le> sint off + sint E - 1 \<and> sint off + sint E - 1 < 2 ^ 63 \<longrightarrow>
            sint (off + (E - 1)) = sint off + sint E - 1)"
proof -
  from assms(1,2) have a: "amplify s len = MinFetch s"
    by (simp add: amplify_def max64_def)
  then have a': "sint (amplify s len) = sint (MinFetch s)" by simp
  from a assms(3) have e: "sint E = (case KnownSize s of None \<Rightarrow> sint (MinFetch s)
                   | Some S \<Rightarrow> min (sint (S - off)) (sint (MinFetch s)))"
    by (simp add: sint_clamp)
  have k: "\<forall>S. KnownSize s = Some S \<and> 0 \<le> sint S \<longrightarrow>
            sint E = min (sint S - sint off) (sint (MinFetch s))"
    using sint_clamp_known [of s _ off "amplify s len"] assms(3,4) a
    by (auto simp: word_sle_eq)
  from ReadAtWithLength_miss [OF assms(4,3,5,6)]
  have "ReadAtWithLength env s buf off len = fetch env s buf off E" .
  with fetch_calls_Do [OF assms(7,8), of buf]
  have d: "wire (snd (ReadAtWithLength env s buf off len)) =
             wire s @ [(req, fst (Do env (Client s) req))]"
      "Client (snd (ReadAtWithLength env s buf off len)) = snd (Do env (Client s) req)"
    by simp_all
  have z: "E = 0 \<longrightarrow>
            fmtRange off E = ''bytes='' @ itoa10 (sint off) @ ''-'' @ itoa10 (sint off)"
    by (simp add: fmtRange_zero)
  have w: "E \<noteq> 0 \<longrightarrow>
            fmtRange off E =
              ''bytes='' @ itoa10 (sint off) @ ''-'' @ itoa10 (sint (off + (E - 1)))"
    using fmtRange_wraps [of E off] by blast
  have r: "- (2 ^ 63) \<le> sint off + sint E - 1 \<and> sint off + sint E - 1 < 2 ^ 63 \<longrightarrow>
            sint (off + (E - 1)) = sint off + sint E - 1"
    by (simp add: sint64_last_byte)
  from a' e k d z w r show ?thesis by (intro conjI)
qed

theorem amplified_range_is_dispatched_witness:
  "Client (snd (ReadAtWithLength (recorder (reply 206 0 []))
      (fresh 1048576 (Some 5000000) []) [0, 0] 2000000 10)) =
     [\<lparr>Method = ''GET'', ReqURL = ''http://h/f'',
       Header = [(''Range'', ''bytes=2000000-3048575'')]\<rparr>] \<and>
   Client (snd (ReadAtWithLength (recorder (reply 206 0 []))
      (fresh 1048576 (Some 5000000) []) [0, 0] 4999990 4)) =
     [\<lparr>Method = ''GET'', ReqURL = ''http://h/f'',
       Header = [(''Range'', ''bytes=4999990-4999999'')]\<rparr>] \<and>
   Client (snd (ReadAtWithLength (recorder (reply 206 0 []))
      (fresh 1048576 (Some 5000000) []) [0, 0] 5000000 4)) =
     [\<lparr>Method = ''GET'', ReqURL = ''http://h/f'',
       Header = [(''Range'', ''bytes=5000000-5000000'')]\<rparr>]"
proof -
  let ?e = "recorder (reply 206 0 [])"
  let ?s = "fresh 1048576 (Some 5000000) [] :: request list SeekingHTTP"
  note n = newReq_fresh [of "reply 206 0 []" 1048576 "Some 5000000" "[]"]
  have m: "MinFetch ?s \<noteq> 0" by (simp add: fresh_def)
  have l: "10 <s MinFetch ?s" "4 <s MinFetch ?s" by (simp_all add: fresh_def word_sless_alt)
  have e: "(1048576 :: int64) = clamp ?s 2000000 (amplify ?s 10)"
    "(10 :: int64) = clamp ?s 4999990 (amplify ?s 4)"
    "(0 :: int64) = clamp ?s 5000000 (amplify ?s 4)"
    by (simp_all add: clamp_def amplify_def max64_def min64_def fresh_def word_sless_alt)
  have o: "(0 :: int64) \<le>s 2000000" "(0 :: int64) \<le>s 4999990" "(0 :: int64) \<le>s 5000000"
    by (simp_all add: word_sle_eq)
  have k: "KnownSize ?s = None \<or> (0 :: int64) \<le>s 1048576"
    "KnownSize ?s = None \<or> (0 :: int64) \<le>s 10" "KnownSize ?s = None \<or> (0 :: int64) \<le>s 0"
    by (simp_all add: word_sle_eq)
  have c: "\<not> cache_hit ?s x y" for x y by (simp add: cache_hit_def fresh_def)
  have f: "fmtRange 2000000 1048576 = ''bytes=2000000-3048575''"
    "fmtRange 4999990 10 = ''bytes=4999990-4999999''"
    "fmtRange 5000000 0 = ''bytes=5000000-5000000''"
    by (simp_all add: fmtRange_def FormatInt10_def itoa10_def digits10.simps)
  have cl: "Client ?s = []" by (simp add: fresh_def)
  note t1 = amplified_range_is_dispatched [OF m l(1) e(1) o(1) k(1) c n refl, of "[0, 0]"]
  note t2 = amplified_range_is_dispatched [OF m l(2) e(2) o(2) k(2) c n refl, of "[0, 0]"]
  note t3 = amplified_range_is_dispatched [OF m l(2) e(3) o(3) k(3) c n refl, of "[0, 0]"]
  from t1 [THEN conjunct2, THEN conjunct2, THEN conjunct2, THEN conjunct2, THEN conjunct1]
  have 1: "Client (snd (ReadAtWithLength ?e ?s [0, 0] 2000000 10)) =
     [\<lparr>Method = ''GET'', ReqURL = ''http://h/f'',
       Header = [(''Range'', ''bytes=2000000-3048575'')]\<rparr>]"
    by (simp add: f cl) (simp add: recorder_def)
  from t2 [THEN conjunct2, THEN conjunct2, THEN conjunct2, THEN conjunct2, THEN conjunct1]
  have 2: "Client (snd (ReadAtWithLength ?e ?s [0, 0] 4999990 4)) =
     [\<lparr>Method = ''GET'', ReqURL = ''http://h/f'',
       Header = [(''Range'', ''bytes=4999990-4999999'')]\<rparr>]"
    by (simp add: f cl) (simp add: recorder_def)
  from t3 [THEN conjunct2, THEN conjunct2, THEN conjunct2, THEN conjunct2, THEN conjunct1]
  have 3: "Client (snd (ReadAtWithLength ?e ?s [0, 0] 5000000 4)) =
     [\<lparr>Method = ''GET'', ReqURL = ''http://h/f'',
       Header = [(''Range'', ''bytes=5000000-5000000'')]\<rparr>]"
    by (simp add: f cl) (simp add: recorder_def)
  from 1 2 3 show ?thesis by (intro conjI)
qed

text \<open>
  The end of the range is computed in int64: at the offset \<open>2 ^ 63 - 2\<close> with MinFetch 4
  and two bytes asked for, the effective length is 4, \<open>off + 4 - 1\<close> is
  9223372036854775809 and the end that is sent is -9223372036854775807.
\<close>

theorem range_end_wraps:
  "Client (snd (ReadAtWithLength (recorder (Inl (Foreign 0))) (fresh 4 None []) [0, 0]
      9223372036854775806 2)) =
     [\<lparr>Method = ''GET'', ReqURL = ''http://h/f'',
       Header = [(''Range'', ''bytes=9223372036854775806--9223372036854775807'')]\<rparr>] \<and>
   itoa10 (9223372036854775806 + 4 - 1) = ''9223372036854775809''"
  by (simp add: eval_defs)

subsection \<open>The known size\<close>

text \<open>
  C7. Once the known size is set, no sequence of calls of Read, ReadAt, ReadAtWithLength,
  Seek and Size changes it, whatever the transport answers (a partial fetch with another
  content length included), and Size then returns the stored value and leaves the whole
  state, the record of the transport exchanges included, as it was.
\<close>

theorem known_size_immutable:
  assumes "KnownSize s = Some S"
  shows "KnownSize (run env s cs) = Some S \<and>
         Size env (run env s cs) = ((S, None), run env s cs)"
  using run_KnownSize [OF assms] by (simp add: Size_known)

theorem known_size_immutable_witness:
  "KnownSize (fresh 0 (Some 10) [reply 206 3 [1, 2, 3]]) = Some 10 \<and>
   KnownSize (run scripted (fresh 0 (Some 10) [reply 206 3 [1, 2, 3]])
     [CallReadAt [0, 0, 0] 0, CallSeek 0 2, CallSize]) = Some 10 \<and>
   Size scripted (run scripted (fresh 0 (Some 10) [reply 206 3 [1, 2, 3]])
     [CallReadAt [0, 0, 0] 0, CallSeek 0 2, CallSize]) =
   ((10, None), run scripted (fresh 0 (Some 10) [reply 206 3 [1, 2, 3]])
     [CallReadAt [0, 0, 0] 0, CallSeek 0 2, CallSize])"
  using known_size_immutable [of "fresh 0 (Some 10) [reply 206 3 [1, 2, 3]]" 10 scripted
      "[CallReadAt [0, 0, 0] 0, CallSeek 0 2, CallSize]"]
  by (simp add: fresh_def)

subsection \<open>Responses that are not a success\<close>



subsection \<open>Reading at the end\<close>




subsection \<open>Seek with an unknown whence\<close>

text \<open>
  C10. For a whence value other than 0 (io.SeekStart), 1 (io.SeekCurrent) and 2
  (io.SeekEnd), Seek returns 0 and os.ErrInvalid and changes nothing, so that the Read
  that follows does what it would have done without the Seek.
\<close>

theorem seek_invalid_whence:
  "whence \<noteq> 0 \<Longrightarrow> whence \<noteq> 1 \<Longrightarrow> whence \<noteq> 2 \<Longrightarrow>
   Seek env s off whence = ((0, Some os_ErrInvalid), s) \<and>
   Read env (snd (Seek env s off whence)) buf = Read env s buf"
  by (simp add: Seek_def)

theorem seek_invalid_whence_witness:
  "(3 :: int) \<noteq> 0 \<and> (3 :: int) \<noteq> 1 \<and> (3 :: int) \<noteq> 2 \<and>
   Seek scripted (fresh 0 None []) 5 3 = ((0, Some os_ErrInvalid), fresh 0 None []) \<and>
   Read scripted (snd (Seek scripted (fresh 0 None []) 5 3)) [0, 0] =
     Read scripted (fresh 0 None []) [0, 0]"
  using seek_invalid_whence [of 3 scripted "fresh 0 None []" 5 "[0, 0]"] by simp

end
